theory Spec2Isabelle
  imports Complex_Main
begin

section \<open>Photon Maze: the ray tracer and the maze generator\<close>

text \<open>
  JavaScript numbers are modelled as real numbers: the arithmetic of the program is read
  exactly, without the rounding, the infinities and the NaN of IEEE doubles. Every division
  of the modelled code is guarded by the code itself (a zero magnitude, a small determinant,
  a zero segment length), so no quotient by zero is ever evaluated. Objects are records,
  \<open>null\<close> is \<open>None\<close>, and the wall type stays the string tag the program uses.
\<close>

subsection \<open>vec2.js\<close>

record vec2 =
  v_x :: real
  v_y :: real

definition Math_hypot :: "real \<Rightarrow> real \<Rightarrow> real" where
  "Math_hypot p q = sqrt (p * p + q * q)"

definition Vec2_add :: "vec2 \<Rightarrow> vec2 \<Rightarrow> vec2" where
  "Vec2_add a b = \<lparr>v_x = v_x a + v_x b, v_y = v_y a + v_y b\<rparr>"

definition Vec2_sub :: "vec2 \<Rightarrow> vec2 \<Rightarrow> vec2" where
  "Vec2_sub a b = \<lparr>v_x = v_x a - v_x b, v_y = v_y a - v_y b\<rparr>"

definition Vec2_mult :: "vec2 \<Rightarrow> real \<Rightarrow> vec2" where
  "Vec2_mult v n = \<lparr>v_x = v_x v * n, v_y = v_y v * n\<rparr>"

definition Vec2_dot :: "vec2 \<Rightarrow> vec2 \<Rightarrow> real" where
  "Vec2_dot a b = v_x a * v_x b + v_y a * v_y b"

definition Vec2_mag :: "vec2 \<Rightarrow> real" where
  "Vec2_mag v = Math_hypot (v_x v) (v_y v)"

definition Vec2_normalize :: "vec2 \<Rightarrow> vec2" where
  "Vec2_normalize v =
     (let m = Math_hypot (v_x v) (v_y v)
      in if m \<noteq> 0 then \<lparr>v_x = v_x v / m, v_y = v_y v / m\<rparr> else \<lparr>v_x = 0, v_y = 0\<rparr>)"

definition Vec2_dist :: "vec2 \<Rightarrow> vec2 \<Rightarrow> real" where
  "Vec2_dist a b = Math_hypot (v_x a - v_x b) (v_y a - v_y b)"

subsection \<open>config.js: constants\<close>

definition CONFIG_defaultMaxBounces :: int where
  "CONFIG_defaultMaxBounces = 20"

definition CONFIG_complexMaxBounces :: int where
  "CONFIG_complexMaxBounces = 150"

definition CONFIG_refractiveIndex :: real where
  "CONFIG_refractiveIndex = 1.5"

definition CONFIG_airIndex :: real where
  "CONFIG_airIndex = 1.0"

definition CONFIG_colors_wall :: string where
  "CONFIG_colors_wall = ''#00ccff''"

subsection \<open>The engine state that a trace reads and writes\<close>

record wall =
  w_a :: vec2
  w_b :: vec2
  w_type :: string
  w_normal :: vec2

record circle =
  c_x :: real
  c_y :: real
  c_r :: real

record particle =
  p_x :: real
  p_y :: real
  p_vx :: real
  p_vy :: real
  p_life :: real
  p_color :: string

text \<open>
  The fields of \<open>PhotonGame\<close> that \<open>traceRay\<close> and the functions it calls touch.
\<close>

record game =
  g_walls :: "wall list"
  g_target :: circle
  g_maxBounces :: int
  g_particles :: "particle list"

text \<open>
  \<open>Math.random\<close> is an ambient source of draws: an infinite sequence whose head is
  the next draw.
\<close>

type_synonym rng = "nat \<Rightarrow> real"

definition Math_random :: "rng \<Rightarrow> real \<times> rng" where
  "Math_random r = (r 0, \<lambda>n. r (Suc n))"

definition calculateNormal :: "vec2 \<Rightarrow> vec2 \<Rightarrow> vec2" where
  "calculateNormal a b =
     (let dx = v_x b - v_x a; dy = v_y b - v_y a
      in Vec2_normalize \<lparr>v_x = - dy, v_y = dx\<rparr>)"

definition mkWall :: "real \<Rightarrow> real \<Rightarrow> real \<Rightarrow> real \<Rightarrow> string \<Rightarrow> wall" where
  "mkWall x1 y1 x2 y2 ty =
     \<lparr>w_a = \<lparr>v_x = x1, v_y = y1\<rparr>, w_b = \<lparr>v_x = x2, v_y = y2\<rparr>, w_type = ty,
      w_normal = calculateNormal \<lparr>v_x = x1, v_y = y1\<rparr> \<lparr>v_x = x2, v_y = y2\<rparr>\<rparr>"

definition addWall :: "real \<Rightarrow> real \<Rightarrow> real \<Rightarrow> real \<Rightarrow> string \<Rightarrow> game \<Rightarrow> game" where
  "addWall x1 y1 x2 y2 ty g = g\<lparr>g_walls := g_walls g @ [mkWall x1 y1 x2 y2 ty]\<rparr>"

subsection \<open>Intersection and target tests\<close>

record hit =
  h_t :: real
  h_point :: vec2

definition getLineIntersection :: "vec2 \<Rightarrow> vec2 \<Rightarrow> vec2 \<Rightarrow> vec2 \<Rightarrow> hit option" where
  "getLineIntersection p d a b =
     (let v1 = \<lparr>v_x = v_x p - v_x a, v_y = v_y p - v_y a\<rparr>;
          v2 = \<lparr>v_x = v_x b - v_x a, v_y = v_y b - v_y a\<rparr>;
          v3 = \<lparr>v_x = - v_y d, v_y = v_x d\<rparr>;
          dot = Vec2_dot v2 v3
      in if \<bar>dot\<bar> < 0.00001 then None
         else
           (let t1 = (v_x v2 * v_y v1 - v_y v2 * v_x v1) / dot;
                t2 = Vec2_dot v1 v3 / dot
            in if t1 \<ge> 0 \<and> t2 \<ge> 0 \<and> t2 \<le> 1
               then Some \<lparr>h_t = t1, h_point = \<lparr>v_x = v_x p + t1 * v_x d, v_y = v_y p + t1 * v_y d\<rparr>\<rparr>
               else None))"

definition segmentCircleIntersect :: "vec2 \<Rightarrow> vec2 \<Rightarrow> circle \<Rightarrow> bool" where
  "segmentCircleIntersect p1 p2 c =
     (let L2 = (Vec2_dist p1 p2)\<^sup>2
      in if L2 = 0 then Vec2_dist p1 \<lparr>v_x = c_x c, v_y = c_y c\<rparr> < c_r c
         else
           (let t0 = ((c_x c - v_x p1) * (v_x p2 - v_x p1) + (c_y c - v_y p1) * (v_y p2 - v_y p1)) / L2;
                t = max 0 (min 1 t0);
                proj = \<lparr>v_x = v_x p1 + t * (v_x p2 - v_x p1), v_y = v_y p1 + t * (v_y p2 - v_y p1)\<rparr>
            in Vec2_dist \<lparr>v_x = c_x c, v_y = c_y c\<rparr> proj < c_r c))"

text \<open>
  The inner \<open>for (let wall of this.walls)\<close> loop of \<open>traceRay\<close>. The accumulator holds
  \<open>(minT, closest, hitWall)\<close>; \<open>None\<close> is the initial \<open>(Infinity, null, null)\<close>.
\<close>

definition epsilon :: real where
  "epsilon = 0.01"

fun scanWalls :: "vec2 \<Rightarrow> vec2 \<Rightarrow> wall list \<Rightarrow> (real \<times> vec2 \<times> wall) option
                  \<Rightarrow> (real \<times> vec2 \<times> wall) option" where
  "scanWalls currPos currDir [] acc = acc"
| "scanWalls currPos currDir (wl # ws) acc =
     scanWalls currPos currDir ws
       (case getLineIntersection currPos currDir (w_a wl) (w_b wl) of
          None \<Rightarrow> acc
        | Some h \<Rightarrow>
            if h_t h > epsilon \<and> (case acc of None \<Rightarrow> True | Some (minT, _, _) \<Rightarrow> h_t h < minT)
            then Some (h_t h, h_point h, wl) else acc)"

subsection \<open>Particles\<close>

definition spawnOne :: "vec2 \<Rightarrow> string \<Rightarrow> real \<Rightarrow> game \<times> rng \<Rightarrow> game \<times> rng" where
  "spawnOne pos color speedScale s =
     (let (g, r0) = s;
          (u1, r1) = Math_random r0;
          angle = u1 * pi * 2;
          (u2, r2) = Math_random r1;
          speed = u2 * speedScale + 1
      in (g\<lparr>g_particles := g_particles g @
              [\<lparr>p_x = v_x pos, p_y = v_y pos, p_vx = cos angle * speed, p_vy = sin angle * speed,
                p_life = 1, p_color = color\<rparr>]\<rparr>, r2))"

definition spawnParticles :: "vec2 \<Rightarrow> string \<Rightarrow> real \<Rightarrow> game \<times> rng \<Rightarrow> game \<times> rng" where
  "spawnParticles pos color speedScale s =
     spawnOne pos color speedScale (spawnOne pos color speedScale (spawnOne pos color speedScale s))"

subsection \<open>traceRay\<close>

record loop_state =
  this :: game
  rand :: rng
  points :: "vec2 list"
  currPos :: vec2
  currDir :: vec2
  hitTarget :: bool

text \<open>The direction a mirror hit leaves with, from the wall's stored normal.\<close>

definition mirrorDir :: "vec2 \<Rightarrow> vec2 \<Rightarrow> vec2" where
  "mirrorDir d normal0 =
     (let normal = (if Vec2_dot d normal0 > 0 then Vec2_mult normal0 (- 1) else normal0);
          reflect = Vec2_sub d (Vec2_mult normal (2 * Vec2_dot d normal))
      in Vec2_normalize reflect)"

text \<open>The direction a glass hit leaves with.\<close>

definition glassDir :: "vec2 \<Rightarrow> vec2 \<Rightarrow> vec2" where
  "glassDir d normal0 =
     (let entering = (Vec2_dot d normal0 < 0);
          normal = (if \<not> entering then Vec2_mult normal0 (- 1) else normal0);
          n1 = (if \<not> entering then CONFIG_refractiveIndex else CONFIG_airIndex);
          n2 = (if \<not> entering then CONFIG_airIndex else CONFIG_refractiveIndex);
          n = n1 / n2;
          cosI = - Vec2_dot normal d;
          sinT2 = n * n * (1 - cosI * cosI)
      in if sinT2 > 1.0
         then (let reflect = Vec2_sub d (Vec2_mult normal (2 * Vec2_dot d normal))
               in Vec2_normalize reflect)
         else (let cosT = sqrt (1 - sinT2);
                   term1 = Vec2_mult d n;
                   term2 = Vec2_mult normal (n * cosI - cosT)
               in Vec2_add term1 term2))"

text \<open>
  One pass through the body of the \<open>for\<close> loop. \<open>Break\<close> records which \<open>break\<close>
  statement left the loop; \<open>Continue\<close> goes on to \<open>i++\<close>.
\<close>

datatype reason = Escaped | Absorbed | TargetHit

datatype step = Break reason loop_state | Continue loop_state

definition withParticles :: "vec2 \<Rightarrow> string \<Rightarrow> real \<Rightarrow> loop_state \<Rightarrow> loop_state" where
  "withParticles pos color speedScale st =
     (let (g, r) = spawnParticles pos color speedScale (this st, rand st)
      in st\<lparr>this := g, rand := r\<rparr>)"

definition bounce :: "loop_state \<Rightarrow> step" where
  "bounce st =
     (case scanWalls (currPos st) (currDir st) (g_walls (this st)) None of
        None \<Rightarrow>
          Break Escaped
            (st\<lparr>points := points st @
                  [\<lparr>v_x = v_x (currPos st) + v_x (currDir st) * 2000,
                    v_y = v_y (currPos st) + v_y (currDir st) * 2000\<rparr>]\<rparr>)
      | Some (minT, closest, hitWall) \<Rightarrow>
          (let st1 = (if segmentCircleIntersect (currPos st) closest (g_target (this st))
                      then st\<lparr>hitTarget := True\<rparr> else st);
               st2 = st1\<lparr>points := points st1 @ [closest]\<rparr>
           in if w_type hitWall = ''absorb'' then Break Absorbed st2
              else
                (let st3 =
                       (if w_type hitWall = ''mirror''
                        then withParticles closest CONFIG_colors_wall 2
                               (st2\<lparr>currDir := mirrorDir (currDir st2) (w_normal hitWall),
                                    currPos := closest\<rparr>)
                        else if w_type hitWall = ''glass''
                        then withParticles closest ''#fff'' 1
                               (st2\<lparr>currDir := glassDir (currDir st2) (w_normal hitWall),
                                    currPos := closest\<rparr>)
                        else st2)
                 in if hitTarget st3 then Break TargetHit st3 else Continue st3)))"

text \<open>
  The \<open>for (let i = 0; i < this.maxBounces; i++)\<close> loop. Beside the final state the
  result says how the loop was left (\<open>None\<close>: the loop condition failed) and how many
  times its body ran.
\<close>

record run =
  r_state :: loop_state
  r_exit :: "reason option"
  r_iters :: nat

lemma spawnOne_frame:
  "g_maxBounces (fst (spawnOne pos color sc s)) = g_maxBounces (fst s)
   \<and> g_walls (fst (spawnOne pos color sc s)) = g_walls (fst s)
   \<and> g_target (fst (spawnOne pos color sc s)) = g_target (fst s)"
  by (simp add: spawnOne_def Math_random_def Let_def split: prod.splits)

lemma spawnParticles_frame:
  "g_maxBounces (fst (spawnParticles pos color sc s)) = g_maxBounces (fst s)
   \<and> g_walls (fst (spawnParticles pos color sc s)) = g_walls (fst s)
   \<and> g_target (fst (spawnParticles pos color sc s)) = g_target (fst s)"
  by (simp add: spawnParticles_def spawnOne_frame)

lemma withParticles_frame:
  "g_maxBounces (this (withParticles pos color sc st)) = g_maxBounces (this st)
   \<and> g_walls (this (withParticles pos color sc st)) = g_walls (this st)
   \<and> g_target (this (withParticles pos color sc st)) = g_target (this st)"
  using spawnParticles_frame [of pos color sc "(this st, rand st)"]
  by (auto simp: withParticles_def split: prod.splits)

lemma bounce_Continue_frame:
  assumes "bounce st = Continue st'"
  shows "g_maxBounces (this st') = g_maxBounces (this st)"
    and "g_walls (this st') = g_walls (this st)"
    and "g_target (this st') = g_target (this st)"
  using assms
  by (auto simp: bounce_def Let_def withParticles_frame split: option.splits if_splits)

function traceLoop :: "int \<Rightarrow> loop_state \<Rightarrow> run" where
  "traceLoop i st =
     (if i < g_maxBounces (this st)
      then (case bounce st of
              Break why st' \<Rightarrow> \<lparr>r_state = st', r_exit = Some why, r_iters = 1\<rparr>
            | Continue st' \<Rightarrow>
                (let r = traceLoop (i + 1) st' in r\<lparr>r_iters := Suc (r_iters r)\<rparr>))
      else \<lparr>r_state = st, r_exit = None, r_iters = 0\<rparr>)"
  by pat_completeness auto
termination
  by (relation "measure (\<lambda>(i, st). nat (g_maxBounces (this st) - i))")
     (auto simp: bounce_Continue_frame)

declare traceLoop.simps [simp del]

record traceResult =
  path :: "vec2 list"
  success :: bool

definition initState :: "game \<Rightarrow> rng \<Rightarrow> vec2 \<Rightarrow> vec2 \<Rightarrow> loop_state" where
  "initState g r start dir =
     \<lparr>this = g, rand = r, points = [start], currPos = start,
      currDir = Vec2_normalize dir, hitTarget = False\<rparr>"

definition traceRun :: "game \<Rightarrow> rng \<Rightarrow> vec2 \<Rightarrow> vec2 \<Rightarrow> run" where
  "traceRun g r start dir = traceLoop 0 (initState g r start dir)"

text \<open>
  \<open>traceRay\<close> returns \<open>{path, success}\<close>; the engine and the random source it leaves
  behind are the second and third components.
\<close>

definition traceRay :: "game \<Rightarrow> rng \<Rightarrow> vec2 \<Rightarrow> vec2 \<Rightarrow> traceResult \<times> game \<times> rng" where
  "traceRay g r start dir =
     (let st = r_state (traceRun g r start dir)
      in (\<lparr>path = points st, success = hitTarget st\<rparr>, this st, rand st))"

subsection \<open>Notions used by the statements\<close>

text \<open>
  The state a pass leaves, the far point of an escape, the points of a segment, the
  relation between two loop states that carry the same ray, and the concrete engines and
  states on which the theorems are instantiated.
\<close>

definition stepState :: "step \<Rightarrow> loop_state" where
  "stepState s = (case s of Break why st \<Rightarrow> st | Continue st \<Rightarrow> st)"

definition farPoint :: "loop_state \<Rightarrow> vec2" where
  "farPoint st = \<lparr>v_x = v_x (currPos st) + v_x (currDir st) * 2000,
                  v_y = v_y (currPos st) + v_y (currDir st) * 2000\<rparr>"

definition scenarioWall :: wall where
  "scenarioWall = mkWall 50 0 50 100 ''mirror''"

definition scenarioGame :: "int \<Rightarrow> particle list \<Rightarrow> game" where
  "scenarioGame mb ps =
     \<lparr>g_walls = [scenarioWall], g_target = \<lparr>c_x = 100, c_y = 50, c_r = 15\<rparr>,
      g_maxBounces = mb, g_particles = ps\<rparr>"

definition scenarioStart :: "int \<Rightarrow> particle list \<Rightarrow> rng \<Rightarrow> loop_state" where
  "scenarioStart mb ps rnd =
     initState (scenarioGame mb ps) rnd \<lparr>v_x = 0, v_y = 50\<rparr> \<lparr>v_x = 1, v_y = 0\<rparr>"

definition scenarioMid :: "int \<Rightarrow> particle list \<Rightarrow> rng \<Rightarrow> loop_state" where
  "scenarioMid mb ps rnd =
     withParticles \<lparr>v_x = 50, v_y = 50\<rparr> CONFIG_colors_wall 2
       ((scenarioStart mb ps rnd)\<lparr>points := [\<lparr>v_x = 0, v_y = 50\<rparr>, \<lparr>v_x = 50, v_y = 50\<rparr>],
            currDir := \<lparr>v_x = - 1, v_y = 0\<rparr>, currPos := \<lparr>v_x = 50, v_y = 50\<rparr>\<rparr>)"

definition pointAt :: "vec2 \<Rightarrow> vec2 \<Rightarrow> real \<Rightarrow> vec2" where
  "pointAt p1 p2 s = \<lparr>v_x = v_x p1 + s * (v_x p2 - v_x p1), v_y = v_y p1 + s * (v_y p2 - v_y p1)\<rparr>"

definition center :: "circle \<Rightarrow> vec2" where
  "center c = \<lparr>v_x = c_x c, v_y = c_y c\<rparr>"

definition sameRay :: "loop_state \<Rightarrow> loop_state \<Rightarrow> bool" where
  "sameRay s1 s2 \<longleftrightarrow>
     points s1 = points s2 \<and> currPos s1 = currPos s2 \<and> currDir s1 = currDir s2
     \<and> hitTarget s1 = hitTarget s2 \<and> g_walls (this s1) = g_walls (this s2)
     \<and> g_target (this s1) = g_target (this s2) \<and> g_maxBounces (this s1) = g_maxBounces (this s2)"

definition grown :: "particle list \<Rightarrow> particle list \<Rightarrow> bool" where
  "grown ps ps' \<longleftrightarrow> (\<exists>new. ps' = ps @ new)"

definition glassWall :: wall where
  "glassWall = mkWall 40 80 40 20 ''glass''"

definition glassStart :: "vec2 \<Rightarrow> vec2 \<Rightarrow> loop_state" where
  "glassStart start dir =
     initState \<lparr>g_walls = [glassWall], g_target = \<lparr>c_x = 90, c_y = 50, c_r = 15\<rparr>,
                g_maxBounces = 20, g_particles = []\<rparr> (\<lambda>_. 0) start dir"

definition emptyGame :: game where
  "emptyGame = \<lparr>g_walls = [], g_target = \<lparr>c_x = 100, c_y = 0, c_r = 15\<rparr>,
                 g_maxBounces = 20, g_particles = []\<rparr>"

definition nearGame :: game where
  "nearGame = \<lparr>g_walls = [scenarioWall], g_target = \<lparr>c_x = 25, c_y = 60, c_r = 15\<rparr>,
                g_maxBounces = 20, g_particles = []\<rparr>"

definition nearStart :: loop_state where
  "nearStart = initState nearGame (\<lambda>_. 0) \<lparr>v_x = 0, v_y = 50\<rparr> \<lparr>v_x = 1, v_y = 0\<rparr>"

text \<open>
  The state at the head of pass \<open>k\<close> of the trace of \<open>start\<close>, \<open>dir\<close> (the value of
  the loop variables when \<open>i = k\<close> is tested), if the loop gets that far.
\<close>

fun headState :: "game \<Rightarrow> rng \<Rightarrow> vec2 \<Rightarrow> vec2 \<Rightarrow> nat \<Rightarrow> loop_state option" where
  "headState g r start dir 0 = Some (initState g r start dir)"
| "headState g r start dir (Suc k) =
     (case headState g r start dir k of
        None \<Rightarrow> None
      | Some st \<Rightarrow>
          if int k < g_maxBounces (this st)
          then (case bounce st of Continue st' \<Rightarrow> Some st' | Break why st' \<Rightarrow> None)
          else None)"

text \<open>
  A trace whose second pass decides: the ray from \<open>(30, 50)\<close> is reflected by the mirror at
  \<open>x = 50\<close>, comes back through the target around \<open>(0, 50)\<close> and ends on an absorbing
  wall at \<open>x = -50\<close>.
\<close>

definition absorbWall :: wall where
  "absorbWall = mkWall (- 50) 0 (- 50) 100 ''absorb''"

definition absorbGame :: game where
  "absorbGame = \<lparr>g_walls = [scenarioWall, absorbWall], g_target = \<lparr>c_x = 0, c_y = 50, c_r = 15\<rparr>,
                  g_maxBounces = 20, g_particles = []\<rparr>"

definition absorbStart :: loop_state where
  "absorbStart = initState absorbGame (\<lambda>_. 0) \<lparr>v_x = 30, v_y = 50\<rparr> \<lparr>v_x = 1, v_y = 0\<rparr>"

definition absorbMid :: loop_state where
  "absorbMid =
     withParticles \<lparr>v_x = 50, v_y = 50\<rparr> CONFIG_colors_wall 2
       (absorbStart\<lparr>points := [\<lparr>v_x = 30, v_y = 50\<rparr>, \<lparr>v_x = 50, v_y = 50\<rparr>],
            currDir := \<lparr>v_x = - 1, v_y = 0\<rparr>, currPos := \<lparr>v_x = 50, v_y = 50\<rparr>\<rparr>)"

text \<open>
  A trace that ends on the absorbing wall without passing the target: the ray from
  \<open>(30, 50)\<close> runs away from the target around \<open>(100, 50)\<close>.
\<close>

definition missGame :: game where
  "missGame = \<lparr>g_walls = [absorbWall], g_target = \<lparr>c_x = 100, c_y = 50, c_r = 15\<rparr>,
                g_maxBounces = 20, g_particles = []\<rparr>"

definition missStart :: loop_state where
  "missStart = initState missGame (\<lambda>_. 0) \<lparr>v_x = 30, v_y = 50\<rparr> \<lparr>v_x = - 1, v_y = 0\<rparr>"

section \<open>maze.js\<close>

text \<open>
  A failed run. \<open>TypeError\<close> is what the runtime raises when a property of
  \<open>undefined\<close> is read or written; \<open>InvalidArgument\<close> stands for an explicit rejection
  of the arguments, which no statement of the program raises.
\<close>

datatype failure = TypeError | InvalidArgument

record cellWalls =
  wl_top :: bool
  wl_right :: bool
  wl_bottom :: bool
  wl_left :: bool

record cell =
  cell_x :: nat
  cell_y :: nat
  visited :: bool
  cell_walls :: cellWalls

text \<open>
  The grid is an array of rows. The cell objects live in the grid; the stack and the
  neighbour list hold references to them, here the position \<open>(row, column)\<close> of the
  object in the grid.
\<close>

type_synonym grid = "cell list list"

type_synonym cellRef = "nat \<times> nat"

definition buildGrid :: "int \<Rightarrow> int \<Rightarrow> grid" where
  "buildGrid cols rows =
     map (\<lambda>r. map (\<lambda>c. \<lparr>cell_x = c, cell_y = r, visited = False,
                          cell_walls = \<lparr>wl_top = True, wl_right = True, wl_bottom = True, wl_left = True\<rparr>\<rparr>)
                 [0..<nat cols])
         [0..<nat rows]"

text \<open>\<open>grid[y][x]\<close>; \<open>None\<close> is \<open>undefined\<close> (or a missing row).\<close>

definition cellAt :: "grid \<Rightarrow> cellRef \<Rightarrow> cell option" where
  "cellAt grid p = (case p of (y, x) \<Rightarrow>
     if y < length grid \<and> x < length (grid ! y) then Some (grid ! y ! x) else None)"

definition updCell :: "grid \<Rightarrow> cellRef \<Rightarrow> (cell \<Rightarrow> cell) \<Rightarrow> grid" where
  "updCell grid p f = (case p of (y, x) \<Rightarrow> grid[y := (grid ! y)[x := f (grid ! y ! x)]])"

text \<open>
  One line \<open>if (guard && !grid[y][x].visited) N.push(grid[y][x])\<close> of the neighbour
  collection.
\<close>

definition probe :: "grid \<Rightarrow> bool \<Rightarrow> cellRef \<Rightarrow> cellRef list \<Rightarrow> failure + cellRef list" where
  "probe grid guard p N =
     (if guard
      then (case cellAt grid p of
              None \<Rightarrow> Inl TypeError
            | Some c \<Rightarrow> Inr (if \<not> visited c then N @ [p] else N))
      else Inr N)"

definition neighbours :: "int \<Rightarrow> int \<Rightarrow> grid \<Rightarrow> nat \<Rightarrow> nat \<Rightarrow> failure + cellRef list" where
  "neighbours cols rows grid x y =
     (case probe grid (y > 0) (y - 1, x) [] of
        Inl e \<Rightarrow> Inl e
      | Inr N1 \<Rightarrow>
     (case probe grid (int x < cols - 1) (y, x + 1) N1 of
        Inl e \<Rightarrow> Inl e
      | Inr N2 \<Rightarrow>
     (case probe grid (int y < rows - 1) (y + 1, x) N2 of
        Inl e \<Rightarrow> Inl e
      | Inr N3 \<Rightarrow> probe grid (x > 0) (y, x - 1) N3)))"

text \<open>\<open>v | 0\<close>: truncation towards zero, then reduction to a signed 32-bit integer.\<close>

definition toInt32 :: "real \<Rightarrow> int" where
  "toInt32 v =
     (let t = (if v < 0 then - \<lfloor>- v\<rfloor> else \<lfloor>v\<rfloor>); m = t mod 2 ^ 32
      in if m \<ge> 2 ^ 31 then m - 2 ^ 32 else m)"

text \<open>
  The four-way choice of the two wall flags to clear, decided as the program does by
  comparing the coordinates stored in the two cell objects.
\<close>

definition removeWall :: "grid \<Rightarrow> cellRef \<Rightarrow> cell \<Rightarrow> cellRef \<Rightarrow> cell \<Rightarrow> grid" where
  "removeWall grid pc cur pn nxt =
     (if cell_x nxt > cell_x cur
      then updCell (updCell grid pc (\<lambda>c. c\<lparr>cell_walls := (cell_walls c)\<lparr>wl_right := False\<rparr>\<rparr>))
             pn (\<lambda>c. c\<lparr>cell_walls := (cell_walls c)\<lparr>wl_left := False\<rparr>\<rparr>)
      else if cell_x nxt < cell_x cur
      then updCell (updCell grid pc (\<lambda>c. c\<lparr>cell_walls := (cell_walls c)\<lparr>wl_left := False\<rparr>\<rparr>))
             pn (\<lambda>c. c\<lparr>cell_walls := (cell_walls c)\<lparr>wl_right := False\<rparr>\<rparr>)
      else if cell_y nxt > cell_y cur
      then updCell (updCell grid pc (\<lambda>c. c\<lparr>cell_walls := (cell_walls c)\<lparr>wl_bottom := False\<rparr>\<rparr>))
             pn (\<lambda>c. c\<lparr>cell_walls := (cell_walls c)\<lparr>wl_top := False\<rparr>\<rparr>)
      else updCell (updCell grid pc (\<lambda>c. c\<lparr>cell_walls := (cell_walls c)\<lparr>wl_top := False\<rparr>\<rparr>))
             pn (\<lambda>c. c\<lparr>cell_walls := (cell_walls c)\<lparr>wl_bottom := False\<rparr>\<rparr>))"

text \<open>
  One pass through the body of \<open>while (stack.length)\<close>; the top of the stack is its last
  element.
\<close>

definition carveStep :: "int \<Rightarrow> int \<Rightarrow> grid \<times> cellRef list \<times> rng
                         \<Rightarrow> failure + grid \<times> cellRef list \<times> rng" where
  "carveStep cols rows s =
     (case s of (grid, stack, r0) \<Rightarrow>
        (case cellAt grid (last stack) of
           None \<Rightarrow> Inl TypeError
         | Some cur \<Rightarrow>
             (case neighbours cols rows grid (cell_x cur) (cell_y cur) of
                Inl e \<Rightarrow> Inl e
              | Inr N \<Rightarrow>
                  if N \<noteq> []
                  then (let (u, r1) = Math_random r0;
                            k = toInt32 (u * real (length N))
                        in if 0 \<le> k \<and> k < int (length N)
                           then (case cellAt grid (N ! nat k) of
                                   None \<Rightarrow> Inl TypeError
                                 | Some nxt \<Rightarrow>
                                     Inr (updCell (removeWall grid (last stack) cur (N ! nat k) nxt)
                                            (N ! nat k) (\<lambda>c. c\<lparr>visited := True\<rparr>),
                                          stack @ [N ! nat k], r1))
                           else Inl TypeError)
                  else Inr (grid, butlast stack, r0))))"

definition unvisitedCount :: "grid \<Rightarrow> nat" where
  "unvisitedCount grid = sum_list (map (\<lambda>row. length (filter (\<lambda>c. \<not> visited c) row)) grid)"

subsection \<open>The carving loop terminates\<close>

lemma cellAt_updCell:
  "cellAt (updCell g p f) q = (if q = p then map_option f (cellAt g q) else cellAt g q)"
proof -
  obtain y x where p: "p = (y, x)" by (cases p)
  obtain y' x' where q: "q = (y', x')" by (cases q)
  show ?thesis
  proof (cases "y < length g")
    case False
    then have "g[y := (g ! y)[x := f (g ! y ! x)]] = g" by (simp add: list_update_beyond)
    with False show ?thesis by (auto simp: cellAt_def updCell_def p q)
  next
    case True
    then show ?thesis
      by (auto simp: cellAt_def updCell_def p q nth_list_update)
  qed
qed

lemma count_list_update:
  "i < length xs \<Longrightarrow>
   length (filter P (xs[i := v])) + (if P (xs ! i) then 1 else 0)
   = length (filter P xs) + (if P v then 1 else 0)"
proof (induction xs arbitrary: i)
  case Nil
  then show ?case by simp
next
  case (Cons a xs)
  then show ?case by (cases i) auto
qed

lemma sum_list_update_row:
  "i < length rows \<Longrightarrow>
   sum_list (map h (rows[i := r])) + h (rows ! i) = sum_list (map h rows) + (h r :: nat)"
proof (induction rows arbitrary: i)
  case Nil
  then show ?case by simp
next
  case (Cons a rows)
  then show ?case by (cases i) auto
qed

lemma unvisitedCount_updCell:
  assumes "cellAt g p = Some c"
  shows "unvisitedCount (updCell g p f) + (if \<not> visited c then 1 else 0)
         = unvisitedCount g + (if \<not> visited (f c) then 1 else 0)"
proof -
  obtain y x where p: "p = (y, x)" by (cases p)
  from assms have y: "y < length g" and x: "x < length (g ! y)" and c: "c = g ! y ! x"
    by (auto simp: cellAt_def p split: if_splits)
  let ?h = "\<lambda>row. length (filter (\<lambda>c. \<not> visited c) row)"
  from count_list_update [OF x, of "\<lambda>c. \<not> visited c" "f c"] c
  have row: "?h ((g ! y)[x := f c]) + (if \<not> visited c then 1 else 0)
             = ?h (g ! y) + (if \<not> visited (f c) then 1 else 0)"
    by simp
  from sum_list_update_row [OF y, of ?h "(g ! y)[x := f c]"]
  have "unvisitedCount (updCell g p f) + ?h (g ! y) = unvisitedCount g + ?h ((g ! y)[x := f c])"
    by (simp add: unvisitedCount_def updCell_def p c)
  with row show ?thesis by (simp split: if_splits)
qed

lemma unvisitedCount_updCell_same:
  assumes "\<And>c. visited (f c) = visited c"
  shows "unvisitedCount (updCell g p f) = unvisitedCount g"
proof (cases "cellAt g p")
  case None
  obtain y x where p: "p = (y, x)" by (cases p)
  from None have "\<not> (y < length g \<and> x < length (g ! y))"
    by (simp add: cellAt_def p split: if_splits)
  then have "updCell g p f = g"
    by (auto simp: updCell_def p list_update_beyond not_less list_update_same_conv)
  then show ?thesis by simp
next
  case (Some c)
  from unvisitedCount_updCell [OF Some, of f] assms [of c] show ?thesis
    by (simp split: if_splits)
qed

lemma unvisitedCount_removeWall:
  "unvisitedCount (removeWall g pc cur pn nxt) = unvisitedCount g"
  by (simp add: removeWall_def unvisitedCount_updCell_same)

lemma cellAt_updCell_visited:
  assumes "\<And>c. visited (f c) = visited c"
  shows "map_option visited (cellAt (updCell g p f) q) = map_option visited (cellAt g q)"
  by (cases "cellAt g q") (auto simp: cellAt_updCell assms)

lemma cellAt_removeWall_visited:
  "map_option visited (cellAt (removeWall g pc cur pn nxt) q) = map_option visited (cellAt g q)"
  by (simp add: removeWall_def cellAt_updCell_visited)

lemma probe_set:
  assumes "probe g guard p N = Inr N'"
  shows "set N' = set N \<union> (if guard \<and> (\<exists>c. cellAt g p = Some c \<and> \<not> visited c) then {p} else {})"
    and "guard \<Longrightarrow> cellAt g p \<noteq> None"
  using assms by (auto simp: probe_def split: if_splits option.splits)

lemma neighbours_set:
  assumes "neighbours cols rows g x y = Inr N"
  shows "set N = {p. (\<exists>c. cellAt g p = Some c \<and> \<not> visited c)
                    \<and> (p = (y - 1, x) \<and> y > 0 \<or> p = (y, x + 1) \<and> int x < cols - 1
                       \<or> p = (y + 1, x) \<and> int y < rows - 1 \<or> p = (y, x - 1) \<and> x > 0)}"
proof -
  from assms obtain N1 N2 N3 where
    1: "probe g (y > 0) (y - 1, x) [] = Inr N1" and
    2: "probe g (int x < cols - 1) (y, x + 1) N1 = Inr N2" and
    3: "probe g (int y < rows - 1) (y + 1, x) N2 = Inr N3" and
    4: "probe g (x > 0) (y, x - 1) N3 = Inr N"
    by (auto simp: neighbours_def split: sum.splits)
  let ?U = "\<lambda>p. \<exists>c. cellAt g p = Some c \<and> \<not> visited c"
  have "p \<in> set N \<longleftrightarrow> ?U p
          \<and> (p = (y - 1, x) \<and> y > 0 \<or> p = (y, x + 1) \<and> int x < cols - 1
             \<or> p = (y + 1, x) \<and> int y < rows - 1 \<or> p = (y, x - 1) \<and> x > 0)" for p
  proof -
    have a: "p \<in> set N1 \<longleftrightarrow> p = (y - 1, x) \<and> y > 0 \<and> ?U p"
      unfolding probe_set(1) [OF 1] by simp blast
    have b: "p \<in> set N2 \<longleftrightarrow> p \<in> set N1 \<or> p = (y, x + 1) \<and> int x < cols - 1 \<and> ?U p"
      unfolding probe_set(1) [OF 2] by simp blast
    have c: "p \<in> set N3 \<longleftrightarrow> p \<in> set N2 \<or> p = (y + 1, x) \<and> int y < rows - 1 \<and> ?U p"
      unfolding probe_set(1) [OF 3] by simp blast
    have d: "p \<in> set N \<longleftrightarrow> p \<in> set N3 \<or> p = (y, x - 1) \<and> x > 0 \<and> ?U p"
      unfolding probe_set(1) [OF 4] by simp blast
    show ?thesis unfolding d c b a by blast
  qed
  then show ?thesis by blast
qed

lemma carveStep_decreases:
  assumes "carveStep cols rows (g, st, r) = Inr (g', st', r')" and "st \<noteq> []"
  shows "2 * unvisitedCount g' + length st' < 2 * unvisitedCount g + length st"
proof -
  from assms(1) obtain cur N where cur: "cellAt g (last st) = Some cur"
    and N: "neighbours cols rows g (cell_x cur) (cell_y cur) = Inr N"
    by (auto simp: carveStep_def split: option.splits sum.splits)
  show ?thesis
  proof (cases "N = []")
    case True
    with assms cur N have "g' = g" "st' = butlast st" by (simp_all add: carveStep_def)
    with assms(2) show ?thesis by simp
  next
    case False
    define k where "k = toInt32 (r 0 * real (length N))"
    from assms(1) cur N False have k: "0 \<le> k" "k < int (length N)"
      by (auto simp: carveStep_def Math_random_def Let_def k_def split: if_splits)
    then have mem: "N ! nat k \<in> set N" by simp
    with neighbours_set [OF N] obtain nxt where nxt: "cellAt g (N ! nat k) = Some nxt"
      and unv: "\<not> visited nxt" by auto
    from assms(1) cur N False k nxt have
      g': "g' = updCell (removeWall g (last st) cur (N ! nat k) nxt) (N ! nat k) (\<lambda>c. c\<lparr>visited := True\<rparr>)"
      and st': "st' = st @ [N ! nat k]"
      by (simp_all add: carveStep_def Math_random_def Let_def k_def)
    from cellAt_removeWall_visited [of g "last st" cur "N ! nat k" nxt "N ! nat k"] nxt unv
    obtain nxt' where nxt': "cellAt (removeWall g (last st) cur (N ! nat k) nxt) (N ! nat k) = Some nxt'"
      and unv': "\<not> visited nxt'" by auto
    from unvisitedCount_updCell [OF nxt', of "\<lambda>c. c\<lparr>visited := True\<rparr>"] unv'
    have "unvisitedCount g' + 1 = unvisitedCount g"
      by (simp add: g' unvisitedCount_removeWall)
    with st' show ?thesis by simp
  qed
qed

function carveLoop :: "int \<Rightarrow> int \<Rightarrow> grid \<times> cellRef list \<times> rng \<Rightarrow> failure + grid \<times> rng" where
  "carveLoop cols rows (grid, stack, r) =
     (if stack = [] then Inr (grid, r)
      else (case carveStep cols rows (grid, stack, r) of
              Inl e \<Rightarrow> Inl e
            | Inr s \<Rightarrow> carveLoop cols rows s))"
  by pat_completeness auto
termination
proof (relation "measure (\<lambda>(cols, rows, g, st, r). 2 * unvisitedCount g + length st)")
  show "wf (measure (\<lambda>(cols, rows, g, st, r). 2 * unvisitedCount g + length st))" by simp
next
  fix cols rows :: int and grid :: grid and stack :: "cellRef list" and r :: rng
    and s :: "grid \<times> cellRef list \<times> rng"
  assume ne: "stack \<noteq> []" and step: "carveStep cols rows (grid, stack, r) = Inr s"
  obtain g' st' r' where s: "s = (g', st', r')" by (cases s)
  from carveStep_decreases [OF step [unfolded s] ne]
  show "((cols, rows, s), (cols, rows, grid, stack, r))
        \<in> measure (\<lambda>(cols, rows, g, st, r). 2 * unvisitedCount g + length st)"
    by (simp add: s)
qed

declare carveLoop.simps [simp del]

definition carve :: "int \<Rightarrow> int \<Rightarrow> rng \<Rightarrow> failure + grid \<times> rng" where
  "carve cols rows r0 =
     (let grid = buildGrid cols rows
      in case cellAt grid (0, 0) of
           None \<Rightarrow> Inl TypeError
         | Some c \<Rightarrow> carveLoop cols rows (updCell grid (0, 0) (\<lambda>c. c\<lparr>visited := True\<rparr>), [(0, 0)], r0))"

record mazeWall =
  mw_x1 :: real
  mw_y1 :: real
  mw_x2 :: real
  mw_y2 :: real
  mw_type :: string

definition breakChance :: real where
  "breakChance = 0.35"

text \<open>
  \<open>if (intact && Math.random() > breakChance) walls.push({..., type: Math.random() > 0.9 ?
  'glass' : 'mirror'})\<close>: the draws are made only as far as the conditions are evaluated.
\<close>

definition maybeWall :: "bool \<Rightarrow> (string \<Rightarrow> mazeWall) \<Rightarrow> mazeWall list \<times> rng \<Rightarrow> mazeWall list \<times> rng" where
  "maybeWall intact mk s =
     (case s of (walls, r0) \<Rightarrow>
        if intact
        then (let (u, r1) = Math_random r0
              in if u > breakChance
                 then (let (v, r2) = Math_random r1
                       in (walls @ [mk (if v > 0.9 then ''glass'' else ''mirror'')], r2))
                 else (walls, r1))
        else (walls, r0))"

fun convertCells :: "int \<Rightarrow> int \<Rightarrow> grid \<Rightarrow> cellRef list \<Rightarrow> mazeWall list \<times> rng
                      \<Rightarrow> failure + mazeWall list \<times> rng" where
  "convertCells cols rows grid [] s = Inr s"
| "convertCells cols rows grid ((r, c) # ps) s =
     (case cellAt grid (r, c) of
        None \<Rightarrow> Inl TypeError
      | Some cell \<Rightarrow>
          convertCells cols rows grid ps
            (maybeWall (int r < rows - 1 \<and> wl_bottom (cell_walls cell))
               (\<lambda>ty. \<lparr>mw_x1 = real c / real_of_int cols, mw_y1 = (real r + 1) / real_of_int rows,
                       mw_x2 = (real c + 1) / real_of_int cols, mw_y2 = (real r + 1) / real_of_int rows,
                       mw_type = ty\<rparr>)
               (maybeWall (int c < cols - 1 \<and> wl_right (cell_walls cell))
                  (\<lambda>ty. \<lparr>mw_x1 = (real c + 1) / real_of_int cols, mw_y1 = real r / real_of_int rows,
                          mw_x2 = (real c + 1) / real_of_int cols, mw_y2 = (real r + 1) / real_of_int rows,
                          mw_type = ty\<rparr>)
                  s)))"

definition generate :: "int \<Rightarrow> int \<Rightarrow> rng \<Rightarrow> failure + mazeWall list \<times> rng" where
  "generate cols rows r0 =
     (case carve cols rows r0 of
        Inl e \<Rightarrow> Inl e
      | Inr (grid, r1) \<Rightarrow>
          convertCells cols rows grid (List.product [0..<nat rows] [0..<nat cols]) ([], r1))"

subsection \<open>The maze as a graph\<close>

definition simplePath :: "('a \<Rightarrow> 'a \<Rightarrow> bool) \<Rightarrow> 'a \<Rightarrow> 'a \<Rightarrow> 'a list \<Rightarrow> bool" where
  "simplePath E p q ps \<longleftrightarrow>
     ps \<noteq> [] \<and> hd ps = p \<and> last ps = q \<and> distinct ps \<and> successively E ps"

definition treeOn :: "('a \<Rightarrow> 'a \<Rightarrow> bool) \<Rightarrow> 'a set \<Rightarrow> bool" where
  "treeOn E V \<longleftrightarrow>
     (\<forall>p q. E p q \<longrightarrow> p \<in> V \<and> q \<in> V)
     \<and> (\<forall>p \<in> V. \<forall>q \<in> V. \<exists>!ps. simplePath E p q ps)"

datatype direction = ToTop | ToRight | ToBottom | ToLeft

fun wallFlag :: "direction \<Rightarrow> cellWalls \<Rightarrow> bool" where
  "wallFlag ToTop w = wl_top w"
| "wallFlag ToRight w = wl_right w"
| "wallFlag ToBottom w = wl_bottom w"
| "wallFlag ToLeft w = wl_left w"

fun opposite :: "direction \<Rightarrow> direction" where
  "opposite ToTop = ToBottom"
| "opposite ToRight = ToLeft"
| "opposite ToBottom = ToTop"
| "opposite ToLeft = ToRight"

text \<open>The side of cell \<open>p\<close> on which the grid-adjacent cell \<open>q\<close> lies.\<close>

definition sideOf :: "cellRef \<Rightarrow> cellRef \<Rightarrow> direction option" where
  "sideOf p q = (case (p, q) of ((y, x), (y', x')) \<Rightarrow>
     if y' = y \<and> x' = x + 1 then Some ToRight
     else if y' = y \<and> x = x' + 1 then Some ToLeft
     else if x' = x \<and> y' = y + 1 then Some ToBottom
     else if x' = x \<and> y = y' + 1 then Some ToTop
     else None)"

text \<open>
  A passage from \<open>p\<close> to \<open>q\<close>: the cells are adjacent and the wall between them is
  removed, that is, both flags of the shared wall are \<open>false\<close>.
\<close>

definition passage :: "grid \<Rightarrow> cellRef \<Rightarrow> cellRef \<Rightarrow> bool" where
  "passage g p q \<longleftrightarrow>
     (case (cellAt g p, cellAt g q, sideOf p q) of
        (Some c, Some d, Some s) \<Rightarrow>
          \<not> wallFlag s (cell_walls c) \<and> \<not> wallFlag (opposite s) (cell_walls d)
      | _ \<Rightarrow> False)"

definition inGrid :: "int \<Rightarrow> int \<Rightarrow> cellRef \<Rightarrow> bool" where
  "inGrid cols rows p = (case p of (y, x) \<Rightarrow> int x < cols \<and> int y < rows)"

definition visitedSet :: "grid \<Rightarrow> cellRef set" where
  "visitedSet g = {p. \<exists>c. cellAt g p = Some c \<and> visited c}"

definition rngOK :: "rng \<Rightarrow> bool" where
  "rngOK r \<longleftrightarrow> (\<forall>n. 0 \<le> r n \<and> r n < 1)"

definition carveInv :: "int \<Rightarrow> int \<Rightarrow> grid \<Rightarrow> cellRef list \<Rightarrow> bool" where
  "carveInv cols rows g st \<longleftrightarrow>
     (\<forall>p. (cellAt g p \<noteq> None) = inGrid cols rows p)
     \<and> (\<forall>y x c. cellAt g (y, x) = Some c \<longrightarrow> cell_x c = x \<and> cell_y c = y)
     \<and> set st \<subseteq> visitedSet g
     \<and> treeOn (passage g) (visitedSet g)
     \<and> (\<forall>p \<in> visitedSet g. p \<in> set st \<or> (\<forall>q. sideOf p q \<noteq> None \<and> inGrid cols rows q \<longrightarrow> q \<in> visitedSet g))
     \<and> (0, 0) \<in> visitedSet g"

fun clearFlag :: "direction \<Rightarrow> cell \<Rightarrow> cell" where
  "clearFlag ToTop c = c\<lparr>cell_walls := (cell_walls c)\<lparr>wl_top := False\<rparr>\<rparr>"
| "clearFlag ToRight c = c\<lparr>cell_walls := (cell_walls c)\<lparr>wl_right := False\<rparr>\<rparr>"
| "clearFlag ToBottom c = c\<lparr>cell_walls := (cell_walls c)\<lparr>wl_bottom := False\<rparr>\<rparr>"
| "clearFlag ToLeft c = c\<lparr>cell_walls := (cell_walls c)\<lparr>wl_left := False\<rparr>\<rparr>"

definition flagAt :: "grid \<Rightarrow> cellRef \<Rightarrow> direction \<Rightarrow> bool" where
  "flagAt g q t = (case cellAt g q of Some c \<Rightarrow> wallFlag t (cell_walls c) | None \<Rightarrow> True)"

definition pushed :: "grid \<Rightarrow> cellRef \<Rightarrow> cellRef \<Rightarrow> direction \<Rightarrow> grid" where
  "pushed g pc pn s =
     updCell (updCell (updCell g pc (clearFlag s)) pn (clearFlag (opposite s)))
       pn (\<lambda>c. c\<lparr>visited := True\<rparr>)"

definition tinyMaze :: grid where
  "tinyMaze =
     [[\<lparr>cell_x = 0, cell_y = 0, visited = True,
        cell_walls = \<lparr>wl_top = True, wl_right = False, wl_bottom = True, wl_left = True\<rparr>\<rparr>,
       \<lparr>cell_x = 1, cell_y = 0, visited = True,
        cell_walls = \<lparr>wl_top = True, wl_right = True, wl_bottom = True, wl_left = False\<rparr>\<rparr>]]"

section \<open>Properties of the ray tracer\<close>

lemma hypot_nonneg: "0 \<le> Math_hypot p q"
  by (simp add: Math_hypot_def)

lemma hypot_eq_0_iff: "Math_hypot p q = 0 \<longleftrightarrow> p = 0 \<and> q = 0"
  by (simp add: Math_hypot_def add_nonneg_eq_0_iff)

lemma hypot_sq: "(Math_hypot p q)\<^sup>2 = p * p + q * q"
  by (simp add: Math_hypot_def)

lemma hypot_eq_1_iff: "Math_hypot p q = 1 \<longleftrightarrow> p * p + q * q = 1"
  by (simp add: Math_hypot_def)

lemma hypot_scale: "0 < m \<Longrightarrow> Math_hypot (p / m) (q / m) = Math_hypot p q / m"
proof -
  assume m: "0 < m"
  have "(p / m) * (p / m) + (q / m) * (q / m) = (p * p + q * q) / (m * m)"
    by (simp add: add_divide_distrib)
  then have "Math_hypot (p / m) (q / m) = sqrt ((p * p + q * q) / (m * m))"
    by (simp add: Math_hypot_def)
  also have "\<dots> = sqrt (p * p + q * q) / sqrt (m * m)"
    by (simp add: real_sqrt_divide)
  also have "sqrt (m * m) = m" using m by simp
  finally show ?thesis by (simp add: Math_hypot_def)
qed

lemma mag_normalize:
  assumes "v_x v \<noteq> 0 \<or> v_y v \<noteq> 0"
  shows "Vec2_mag (Vec2_normalize v) = 1"
proof -
  let ?m = "Math_hypot (v_x v) (v_y v)"
  have nz: "?m \<noteq> 0" using assms by (simp add: hypot_eq_0_iff)
  then have pos: "0 < ?m" using hypot_nonneg [of "v_x v" "v_y v"] by linarith
  show ?thesis
    using nz pos hypot_scale [OF pos, of "v_x v" "v_y v"]
    by (simp add: Vec2_mag_def Vec2_normalize_def Let_def)
qed

lemma normalize_unit: "Vec2_mag v = 1 \<Longrightarrow> Vec2_normalize v = v"
  by (simp add: Vec2_mag_def Vec2_normalize_def Let_def)

lemma hit_wall_nondegenerate:
  assumes "getLineIntersection p d a b = Some h"
  shows "v_x b - v_x a \<noteq> 0 \<or> v_y b - v_y a \<noteq> 0"
proof (rule ccontr)
  assume "\<not> ?thesis"
  then have "getLineIntersection p d a b = None"
    by (simp add: getLineIntersection_def Vec2_dot_def Let_def)
  with assms show False by simp
qed

lemma hit_normal_unit:
  assumes "getLineIntersection p d a b = Some h"
  shows "Vec2_mag (calculateNormal a b) = 1"
  using hit_wall_nondegenerate [OF assms]
  by (auto simp: calculateNormal_def Let_def intro!: mag_normalize)

lemma scanWalls_Some:
  "scanWalls p d ws acc = Some (t, c, w) \<Longrightarrow>
     acc = Some (t, c, w) \<or>
     (w \<in> set ws \<and> getLineIntersection p d (w_a w) (w_b w) = Some \<lparr>h_t = t, h_point = c\<rparr> \<and> epsilon < t)"
proof (induction ws arbitrary: acc)
  case Nil
  then show ?case by simp
next
  case (Cons wl ws)
  from Cons.IH [OF Cons.prems [simplified]] show ?case
    by (auto split: option.splits if_splits)
qed

lemma reflect_unit:
  assumes "Vec2_mag d = 1" and "Vec2_mag n = 1"
  shows "Vec2_mag (Vec2_sub d (Vec2_mult n (2 * Vec2_dot d n))) = 1"
proof -
  have d: "v_x d * v_x d + v_y d * v_y d = 1" and n: "v_x n * v_x n + v_y n * v_y n = 1"
    using assms by (simp_all add: Vec2_mag_def hypot_eq_1_iff)
  define s where "s = v_x d * v_x n + v_y d * v_y n"
  have "(v_x d - v_x n * (2 * s)) * (v_x d - v_x n * (2 * s))
        + (v_y d - v_y n * (2 * s)) * (v_y d - v_y n * (2 * s))
        = (v_x d * v_x d + v_y d * v_y d) - 4 * s * (v_x d * v_x n + v_y d * v_y n)
          + 4 * s * s * (v_x n * v_x n + v_y n * v_y n)"
    by (simp add: algebra_simps)
  also have "\<dots> = 1" by (simp add: d n) (simp add: s_def)
  finally show ?thesis
    by (simp add: Vec2_mag_def hypot_eq_1_iff Vec2_sub_def Vec2_mult_def Vec2_dot_def s_def)
qed

lemma reflect_dot:
  assumes "Vec2_mag n = 1"
  shows "Vec2_dot (Vec2_sub d (Vec2_mult n (2 * Vec2_dot d n))) n = - Vec2_dot d n"
proof -
  have n: "v_x n * v_x n + v_y n * v_y n = 1"
    using assms by (simp add: Vec2_mag_def hypot_eq_1_iff)
  define s where "s = v_x d * v_x n + v_y d * v_y n"
  have "(v_x d - v_x n * (2 * s)) * v_x n + (v_y d - v_y n * (2 * s)) * v_y n
        = s - 2 * s * (v_x n * v_x n + v_y n * v_y n)"
    by (simp add: algebra_simps s_def)
  also have "\<dots> = - s" by (simp add: n)
  finally show ?thesis
    by (simp add: Vec2_sub_def Vec2_mult_def Vec2_dot_def s_def)
qed

lemma mag_neg: "Vec2_mag (Vec2_mult n (- 1)) = Vec2_mag n"
  by (simp add: Vec2_mag_def Vec2_mult_def Math_hypot_def)

lemma dot_neg: "Vec2_dot d (Vec2_mult n (- 1)) = - Vec2_dot d n"
  by (simp add: Vec2_mult_def Vec2_dot_def)

lemma reflect_neg:
  "Vec2_sub d (Vec2_mult (Vec2_mult n (- 1)) (2 * Vec2_dot d (Vec2_mult n (- 1))))
   = Vec2_sub d (Vec2_mult n (2 * Vec2_dot d n))"
  by (simp add: Vec2_sub_def Vec2_mult_def Vec2_dot_def algebra_simps)

lemma withParticles_phys:
  "currDir (withParticles pos color sc st) = currDir st"
  "currPos (withParticles pos color sc st) = currPos st"
  "points (withParticles pos color sc st) = points st"
  "hitTarget (withParticles pos color sc st) = hitTarget st"
  by (simp_all add: withParticles_def split: prod.splits)

lemma bounce_mirror_dir:
  assumes "scanWalls (currPos st) (currDir st) (g_walls (this st)) None = Some (t, closest, w)"
    and "w_type w = ''mirror''"
  shows "currDir (stepState (bounce st)) = mirrorDir (currDir st) (w_normal w)"
    and "currPos (stepState (bounce st)) = closest"
  using assms by (simp_all add: bounce_def stepState_def Let_def withParticles_phys)

text \<open>
  Claim C2. At a mirror hit with a unit incoming direction \<open>d\<close>, the stored normal is
  flipped when \<open>dot(d, n) > 0\<close>, so that the normal used opposes the ray; the outgoing
  direction is the normalization of \<open>d - 2 * dot(d, n) * n\<close>, it is a unit vector, and
  \<open>dot(d, n) = - dot(d', n)\<close>. The walls are those \<open>addWall\<close> builds: the normal
  is \<open>calculateNormal a b\<close>.
\<close>

theorem mirror_reflection_law:
  assumes unit: "Vec2_mag (currDir st) = 1"
    and built: "\<forall>w \<in> set (g_walls (this st)). w_normal w = calculateNormal (w_a w) (w_b w)"
    and hit: "scanWalls (currPos st) (currDir st) (g_walls (this st)) None = Some (t, closest, w)"
    and mirror: "w_type w = ''mirror''"
  shows "let d = currDir st;
             n = (if Vec2_dot d (w_normal w) > 0 then Vec2_mult (w_normal w) (- 1) else w_normal w);
             d' = currDir (stepState (bounce st))
         in Vec2_dot d n \<le> 0
            \<and> d' = Vec2_normalize (Vec2_sub d (Vec2_mult n (2 * Vec2_dot d n)))
            \<and> Vec2_mag d' = 1
            \<and> Vec2_dot d n = - Vec2_dot d' n"
proof -
  let ?d = "currDir st"
  let ?n = "if Vec2_dot ?d (w_normal w) > 0 then Vec2_mult (w_normal w) (- 1) else w_normal w"
  let ?r = "Vec2_sub ?d (Vec2_mult ?n (2 * Vec2_dot ?d ?n))"
  from scanWalls_Some [OF hit]
  have w: "w \<in> set (g_walls (this st))"
    and gl: "getLineIntersection (currPos st) ?d (w_a w) (w_b w) = Some \<lparr>h_t = t, h_point = closest\<rparr>"
    by simp_all
  have n0: "Vec2_mag (w_normal w) = 1"
    using built w hit_normal_unit [OF gl] by simp
  have n1: "Vec2_mag ?n = 1" using n0 by (simp add: mag_neg)
  have opp: "Vec2_dot ?d ?n \<le> 0" by (simp add: dot_neg)
  have r1: "Vec2_mag ?r = 1" by (rule reflect_unit [OF unit n1])
  have step: "currDir (stepState (bounce st)) = Vec2_normalize ?r"
    using bounce_mirror_dir(1) [OF hit mirror] by (simp add: mirrorDir_def Let_def)
  have same: "Vec2_normalize ?r = ?r" by (rule normalize_unit [OF r1])
  have law: "Vec2_dot ?d ?n = - Vec2_dot ?r ?n" using reflect_dot [OF n1, of ?d] by simp
  show ?thesis
    unfolding Let_def using opp step r1 same law by simp
qed

lemma dot_sq_le_1:
  assumes "Vec2_mag d = 1" and "Vec2_mag n = 1"
  shows "Vec2_dot n d * Vec2_dot n d \<le> 1"
proof -
  have d: "v_x d * v_x d + v_y d * v_y d = 1" and n: "v_x n * v_x n + v_y n * v_y n = 1"
    using assms by (simp_all add: Vec2_mag_def hypot_eq_1_iff)
  have "(v_x n * v_x n + v_y n * v_y n) * (v_x d * v_x d + v_y d * v_y d)
        - (v_x n * v_x d + v_y n * v_y d) * (v_x n * v_x d + v_y n * v_y d)
        = (v_x n * v_y d - v_y n * v_x d) * (v_x n * v_y d - v_y n * v_x d)"
    by (simp add: algebra_simps)
  then have "1 - Vec2_dot n d * Vec2_dot n d
             = (v_x n * v_y d - v_y n * v_x d) * (v_x n * v_y d - v_y n * v_x d)"
    by (simp add: d n Vec2_dot_def)
  moreover have "0 \<le> (v_x n * v_y d - v_y n * v_x d) * (v_x n * v_y d - v_y n * v_x d)"
    by simp
  ultimately show ?thesis by linarith
qed

lemma tir_threshold:
  assumes "c\<^sup>2 \<le> 1"
  shows "(CONFIG_refractiveIndex / CONFIG_airIndex)\<^sup>2 * (1 - c\<^sup>2) > 1
         \<longleftrightarrow> sqrt (1 - c\<^sup>2) > CONFIG_airIndex / CONFIG_refractiveIndex"
    and "\<not> (CONFIG_airIndex / CONFIG_refractiveIndex)\<^sup>2 * (1 - c\<^sup>2) > 1"
proof -
  define u where "u = 1 - c\<^sup>2"
  have u0: "0 \<le> u" and u1: "u \<le> 1" using assms by (simp_all add: u_def)
  have "sqrt u > 2 / 3 \<longleftrightarrow> sqrt u > sqrt ((2 / 3)\<^sup>2)"
    by (simp only: real_sqrt_abs) simp
  also have "\<dots> \<longleftrightarrow> u > (2 / 3)\<^sup>2"
    by (rule real_sqrt_less_iff)
  also have "\<dots> \<longleftrightarrow> (3 / 2)\<^sup>2 * u > 1"
    by (simp add: power2_eq_square) linarith
  finally have "(3 / 2)\<^sup>2 * u > 1 \<longleftrightarrow> sqrt u > 2 / 3" by simp
  then show "(CONFIG_refractiveIndex / CONFIG_airIndex)\<^sup>2 * (1 - c\<^sup>2) > 1
         \<longleftrightarrow> sqrt (1 - c\<^sup>2) > CONFIG_airIndex / CONFIG_refractiveIndex"
    by (simp add: CONFIG_refractiveIndex_def CONFIG_airIndex_def u_def)
  have "(2 / 3)\<^sup>2 * u \<le> 1" using u1 by (simp add: power2_eq_square)
  then show "\<not> (CONFIG_airIndex / CONFIG_refractiveIndex)\<^sup>2 * (1 - c\<^sup>2) > 1"
    by (simp add: CONFIG_refractiveIndex_def CONFIG_airIndex_def u_def)
qed

lemma refract_unit:
  assumes d1: "Vec2_mag d = 1" and n1: "Vec2_mag nrm = 1"
    and le: "n * n * (1 - (- Vec2_dot nrm d) * (- Vec2_dot nrm d)) \<le> 1"
  shows "Vec2_mag (Vec2_add (Vec2_mult d n)
           (Vec2_mult nrm (n * (- Vec2_dot nrm d)
              - sqrt (1 - n * n * (1 - (- Vec2_dot nrm d) * (- Vec2_dot nrm d)))))) = 1"
proof -
  have d: "v_x d * v_x d + v_y d * v_y d = 1" and nn: "v_x nrm * v_x nrm + v_y nrm * v_y nrm = 1"
    using d1 n1 by (simp_all add: Vec2_mag_def hypot_eq_1_iff)
  define c where "c = - Vec2_dot nrm d"
  define s2 where "s2 = n * n * (1 - c * c)"
  define ct where "ct = sqrt (1 - s2)"
  define k where "k = n * c - ct"
  have s2le: "s2 \<le> 1" using le by (simp add: s2_def c_def)
  have ct2: "ct * ct = 1 - s2" using s2le by (simp add: ct_def)
  have dn: "v_x d * v_x nrm + v_y d * v_y nrm = - c"
    by (simp add: c_def Vec2_dot_def algebra_simps)
  have "(v_x d * n + v_x nrm * k) * (v_x d * n + v_x nrm * k)
        + (v_y d * n + v_y nrm * k) * (v_y d * n + v_y nrm * k)
        = n * n * (v_x d * v_x d + v_y d * v_y d)
          + 2 * n * k * (v_x d * v_x nrm + v_y d * v_y nrm)
          + k * k * (v_x nrm * v_x nrm + v_y nrm * v_y nrm)"
    by (simp add: algebra_simps)
  also have "\<dots> = n * n - 2 * n * k * c + k * k" by (simp add: d nn dn)
  also have "\<dots> = ct * ct + s2" by (simp add: k_def s2_def algebra_simps)
  also have "\<dots> = 1" by (simp add: ct2)
  finally show ?thesis
    by (simp add: Vec2_mag_def hypot_eq_1_iff Vec2_add_def Vec2_mult_def
        k_def ct_def s2_def c_def)
qed

lemma bounce_glass_dir:
  assumes "scanWalls (currPos st) (currDir st) (g_walls (this st)) None = Some (t, closest, w)"
    and "w_type w = ''glass''"
  shows "currDir (stepState (bounce st)) = glassDir (currDir st) (w_normal w)"
    and "currPos (stepState (bounce st)) = closest"
  using assms by (simp_all add: bounce_def stepState_def Let_def withParticles_phys)

lemma mirrorDir_flip:
  "mirrorDir d n0 = Vec2_normalize (Vec2_sub d (Vec2_mult n0 (2 * Vec2_dot d n0)))"
  by (simp add: mirrorDir_def Let_def reflect_neg)

text \<open>
  Claim C1. At a glass hit with a unit incoming direction the normal is flipped and the two
  indices are swapped when exiting, \<open>cosIncidence = - dot(normal, d)\<close> and
  \<open>sin2Transmitted = n\<^sup>2 * (1 - cosIncidence\<^sup>2)\<close>. Above 1 the new direction is the
  reflection the mirror branch computes; otherwise it is
  \<open>n * d + (n * cosIncidence - cosTransmitted) * normal\<close>, which has unit length already,
  so that normalizing it changes nothing. Total internal reflection happens exactly when
  exiting with the sine of the incidence angle above \<open>airIndex / refractiveIndex\<close>.
\<close>

theorem glass_snell:
  assumes unit: "Vec2_mag (currDir st) = 1"
    and built: "\<forall>w \<in> set (g_walls (this st)). w_normal w = calculateNormal (w_a w) (w_b w)"
    and hit: "scanWalls (currPos st) (currDir st) (g_walls (this st)) None = Some (t, closest, w)"
    and glass: "w_type w = ''glass''"
  shows "let d = currDir st;
             exiting = (Vec2_dot d (w_normal w) \<ge> 0);
             normal = (if exiting then Vec2_mult (w_normal w) (- 1) else w_normal w);
             n = (if exiting then CONFIG_refractiveIndex / CONFIG_airIndex
                  else CONFIG_airIndex / CONFIG_refractiveIndex);
             cosIncidence = - Vec2_dot normal d;
             sin2Transmitted = n\<^sup>2 * (1 - cosIncidence\<^sup>2);
             cosTransmitted = sqrt (1 - sin2Transmitted);
             d' = currDir (stepState (bounce st))
         in Vec2_dot d normal \<le> 0
            \<and> (if sin2Transmitted > 1
                then d' = Vec2_normalize (Vec2_sub d (Vec2_mult normal (2 * Vec2_dot d normal)))
                     \<and> d' = mirrorDir d (w_normal w)
                else d' = Vec2_add (Vec2_mult d n)
                            (Vec2_mult normal (n * cosIncidence - cosTransmitted))
                     \<and> d' = Vec2_normalize (Vec2_add (Vec2_mult d n)
                            (Vec2_mult normal (n * cosIncidence - cosTransmitted))))
            \<and> Vec2_mag d' = 1
            \<and> ((sin2Transmitted > 1) =
                 (exiting \<and> sqrt (1 - cosIncidence\<^sup>2) > CONFIG_airIndex / CONFIG_refractiveIndex))"
proof -
  let ?d = "currDir st"
  let ?ex = "Vec2_dot ?d (w_normal w) \<ge> 0"
  let ?N = "if ?ex then Vec2_mult (w_normal w) (- 1) else w_normal w"
  let ?n = "if ?ex then CONFIG_refractiveIndex / CONFIG_airIndex
            else CONFIG_airIndex / CONFIG_refractiveIndex"
  let ?c = "- Vec2_dot ?N ?d"
  let ?s2 = "?n\<^sup>2 * (1 - ?c\<^sup>2)"
  let ?refl = "Vec2_sub ?d (Vec2_mult ?N (2 * Vec2_dot ?d ?N))"
  let ?refr = "Vec2_add (Vec2_mult ?d ?n) (Vec2_mult ?N (?n * ?c - sqrt (1 - ?s2)))"
  let ?d' = "currDir (stepState (bounce st))"
  from scanWalls_Some [OF hit]
  have w: "w \<in> set (g_walls (this st))"
    and gl: "getLineIntersection (currPos st) ?d (w_a w) (w_b w) = Some \<lparr>h_t = t, h_point = closest\<rparr>"
    by simp_all
  have n0: "Vec2_mag (w_normal w) = 1"
    using built w hit_normal_unit [OF gl] by simp
  have N1: "Vec2_mag ?N = 1" using n0 by (simp add: mag_neg)
  have opp: "Vec2_dot ?d ?N \<le> 0" by (simp add: dot_neg)
  have code: "?d' = (if ?s2 > 1 then Vec2_normalize ?refl else ?refr)"
    using bounce_glass_dir(1) [OF hit glass]
    by (simp add: glassDir_def Let_def not_less power2_eq_square)
  have refl1: "Vec2_mag ?refl = 1" by (rule reflect_unit [OF unit N1])
  have refl_mirror: "Vec2_normalize ?refl = mirrorDir ?d (w_normal w)"
    by (simp add: mirrorDir_flip reflect_neg)
  have refr1: "Vec2_mag ?refr = 1" if "\<not> ?s2 > 1"
    using that refract_unit [OF unit N1, of ?n] by (simp add: not_less power2_eq_square)
  have c1: "?c\<^sup>2 \<le> 1" using dot_sq_le_1 [OF unit N1] by (simp add: power2_eq_square)
  have crit: "(?s2 > 1) = (?ex \<and> sqrt (1 - ?c\<^sup>2) > CONFIG_airIndex / CONFIG_refractiveIndex)"
  proof (cases ?ex)
    case True
    with tir_threshold(1) [OF c1] show ?thesis by (simp only: if_True simp_thms)
  next
    case False
    with tir_threshold(2) [OF c1] show ?thesis by (simp only: if_False simp_thms)
  qed
  have branch: "if ?s2 > 1 then ?d' = Vec2_normalize ?refl \<and> ?d' = mirrorDir ?d (w_normal w)
                else ?d' = ?refr \<and> ?d' = Vec2_normalize ?refr"
  proof (cases "?s2 > 1")
    case True
    with code have "?d' = Vec2_normalize ?refl" by (simp only: if_True)
    with True refl_mirror show ?thesis by (simp only: if_True simp_thms)
  next
    case False
    with code have "?d' = ?refr" by (simp only: if_False)
    with False normalize_unit [OF refr1 [OF False]] show ?thesis by (simp only: if_False simp_thms)
  qed
  have unit': "Vec2_mag ?d' = 1"
  proof (cases "?s2 > 1")
    case True
    with code have "?d' = Vec2_normalize ?refl" by (simp only: if_True)
    with normalize_unit [OF refl1] refl1 show ?thesis by (simp only:)
  next
    case False
    with code have "?d' = ?refr" by (simp only: if_False)
    with refr1 [OF False] show ?thesis by (simp only:)
  qed
  show ?thesis
    unfolding Let_def using opp branch unit' crit by (intro conjI)
qed

lemma hypot_axis [simp]: "Math_hypot p 0 = \<bar>p\<bar>" "Math_hypot 0 q = \<bar>q\<bar>"
  by (simp_all add: Math_hypot_def)

lemma bounce_escape:
  assumes "scanWalls (currPos st) (currDir st) (g_walls (this st)) None = None"
  shows "bounce st = Break Escaped (st\<lparr>points := points st @ [farPoint st]\<rparr>)"
  using assms by (simp add: bounce_def farPoint_def)

lemma bounce_mirror_miss:
  assumes "scanWalls (currPos st) (currDir st) (g_walls (this st)) None = Some (t, closest, w)"
    and "w_type w = ''mirror''"
    and "\<not> segmentCircleIntersect (currPos st) closest (g_target (this st))"
    and "\<not> hitTarget st"
  shows "bounce st = Continue (withParticles closest CONFIG_colors_wall 2
            (st\<lparr>points := points st @ [closest],
                currDir := mirrorDir (currDir st) (w_normal w), currPos := closest\<rparr>))"
  using assms by (simp add: bounce_def Let_def withParticles_phys)

lemma traceLoop_limit:
  "\<not> i < g_maxBounces (this st) \<Longrightarrow> traceLoop i st = \<lparr>r_state = st, r_exit = None, r_iters = 0\<rparr>"
  by (simp add: traceLoop.simps)

lemma traceLoop_Break:
  "i < g_maxBounces (this st) \<Longrightarrow> bounce st = Break why st' \<Longrightarrow>
   traceLoop i st = \<lparr>r_state = st', r_exit = Some why, r_iters = 1\<rparr>"
  by (simp add: traceLoop.simps)

lemma traceLoop_Continue:
  "i < g_maxBounces (this st) \<Longrightarrow> bounce st = Continue st' \<Longrightarrow>
   traceLoop i st = (traceLoop (i + 1) st')\<lparr>r_iters := Suc (r_iters (traceLoop (i + 1) st'))\<rparr>"
  by (simp add: traceLoop.simps [of i st] Let_def)

lemma scenarioWall_simps:
  "w_a scenarioWall = \<lparr>v_x = 50, v_y = 0\<rparr>"
  "w_b scenarioWall = \<lparr>v_x = 50, v_y = 100\<rparr>"
  "w_type scenarioWall = ''mirror''"
  "w_normal scenarioWall = \<lparr>v_x = - 1, v_y = 0\<rparr>"
  by (simp_all add: scenarioWall_def mkWall_def calculateNormal_def Vec2_normalize_def Let_def)

lemma scenario_scan1:
  "scanWalls \<lparr>v_x = 0, v_y = 50\<rparr> \<lparr>v_x = 1, v_y = 0\<rparr> [scenarioWall] None
   = Some (50, \<lparr>v_x = 50, v_y = 50\<rparr>, scenarioWall)"
  by (simp add: scenarioWall_simps getLineIntersection_def Vec2_dot_def Let_def epsilon_def)

lemma scenario_scan2:
  "scanWalls \<lparr>v_x = 50, v_y = 50\<rparr> \<lparr>v_x = - 1, v_y = 0\<rparr> [scenarioWall] None = None"
  by (simp add: scenarioWall_simps getLineIntersection_def Vec2_dot_def Let_def epsilon_def)

lemma scenario_target1:
  "\<not> segmentCircleIntersect \<lparr>v_x = 0, v_y = 50\<rparr> \<lparr>v_x = 50, v_y = 50\<rparr> \<lparr>c_x = 100, c_y = 50, c_r = 15\<rparr>"
  by (simp add: segmentCircleIntersect_def Vec2_dist_def Let_def)

lemma scenario_mirror:
  "mirrorDir \<lparr>v_x = 1, v_y = 0\<rparr> \<lparr>v_x = - 1, v_y = 0\<rparr> = \<lparr>v_x = - 1, v_y = 0\<rparr>"
  by (simp add: mirrorDir_def Vec2_dot_def Vec2_mult_def Vec2_sub_def Vec2_normalize_def Let_def)

lemma normalize_x: "Vec2_normalize \<lparr>v_x = 1, v_y = 0\<rparr> = \<lparr>v_x = 1, v_y = 0\<rparr>"
  by (simp add: Vec2_normalize_def)

lemma withParticles_this:
  "g_walls (this (withParticles pos color sc st)) = g_walls (this st)"
  "g_target (this (withParticles pos color sc st)) = g_target (this st)"
  "g_maxBounces (this (withParticles pos color sc st)) = g_maxBounces (this st)"
  by (simp_all add: withParticles_frame)

lemma scenarioStart_simps:
  "points (scenarioStart mb ps rnd) = [\<lparr>v_x = 0, v_y = 50\<rparr>]"
  "currPos (scenarioStart mb ps rnd) = \<lparr>v_x = 0, v_y = 50\<rparr>"
  "currDir (scenarioStart mb ps rnd) = \<lparr>v_x = 1, v_y = 0\<rparr>"
  "hitTarget (scenarioStart mb ps rnd) = False"
  "g_walls (this (scenarioStart mb ps rnd)) = [scenarioWall]"
  "g_target (this (scenarioStart mb ps rnd)) = \<lparr>c_x = 100, c_y = 50, c_r = 15\<rparr>"
  "g_maxBounces (this (scenarioStart mb ps rnd)) = mb"
  "g_particles (this (scenarioStart mb ps rnd)) = ps"
  by (simp_all add: scenarioStart_def initState_def scenarioGame_def normalize_x)

lemma scenarioMid_simps:
  "points (scenarioMid mb ps rnd) = [\<lparr>v_x = 0, v_y = 50\<rparr>, \<lparr>v_x = 50, v_y = 50\<rparr>]"
  "currPos (scenarioMid mb ps rnd) = \<lparr>v_x = 50, v_y = 50\<rparr>"
  "currDir (scenarioMid mb ps rnd) = \<lparr>v_x = - 1, v_y = 0\<rparr>"
  "hitTarget (scenarioMid mb ps rnd) = False"
  "g_walls (this (scenarioMid mb ps rnd)) = [scenarioWall]"
  "g_target (this (scenarioMid mb ps rnd)) = \<lparr>c_x = 100, c_y = 50, c_r = 15\<rparr>"
  "g_maxBounces (this (scenarioMid mb ps rnd)) = mb"
  by (simp_all add: scenarioMid_def withParticles_phys withParticles_this scenarioStart_simps)

lemma scenario_step1: "bounce (scenarioStart mb ps rnd) = Continue (scenarioMid mb ps rnd)"
proof -
  let ?st = "scenarioStart mb ps rnd"
  have scan: "scanWalls (currPos ?st) (currDir ?st) (g_walls (this ?st)) None
              = Some (50, \<lparr>v_x = 50, v_y = 50\<rparr>, scenarioWall)"
    by (simp only: scenarioStart_simps scenario_scan1)
  have miss: "\<not> segmentCircleIntersect (currPos ?st) \<lparr>v_x = 50, v_y = 50\<rparr> (g_target (this ?st))"
    by (simp only: scenarioStart_simps scenario_target1 not_False_eq_True)
  have nohit: "\<not> hitTarget ?st" by (simp only: scenarioStart_simps not_False_eq_True)
  show ?thesis
    using bounce_mirror_miss [OF scan scenarioWall_simps(3) miss nohit]
    by (simp add: scenarioMid_def scenarioStart_simps scenarioWall_simps scenario_mirror)
qed

lemma scenario_step2:
  "bounce (scenarioMid mb ps rnd)
   = Break Escaped ((scenarioMid mb ps rnd)\<lparr>points :=
       [\<lparr>v_x = 0, v_y = 50\<rparr>, \<lparr>v_x = 50, v_y = 50\<rparr>, \<lparr>v_x = - 1950, v_y = 50\<rparr>]\<rparr>)"
proof -
  let ?st = "scenarioMid mb ps rnd"
  have scan: "scanWalls (currPos ?st) (currDir ?st) (g_walls (this ?st)) None = None"
    by (simp only: scenarioMid_simps scenario_scan2)
  show ?thesis
    using bounce_escape [OF scan] by (simp add: farPoint_def scenarioMid_simps)
qed

lemma scenario_run:
  assumes "2 \<le> mb"
  shows "traceLoop 0 (scenarioStart mb ps rnd)
         = \<lparr>r_state = (scenarioMid mb ps rnd)\<lparr>points :=
               [\<lparr>v_x = 0, v_y = 50\<rparr>, \<lparr>v_x = 50, v_y = 50\<rparr>, \<lparr>v_x = - 1950, v_y = 50\<rparr>]\<rparr>,
            r_exit = Some Escaped, r_iters = 2\<rparr>"
proof -
  have a: "0 < g_maxBounces (this (scenarioStart mb ps rnd))"
    and b: "1 < g_maxBounces (this (scenarioMid mb ps rnd))"
    using assms by (simp_all add: scenarioStart_simps scenarioMid_simps)
  show ?thesis
    by (simp add: traceLoop_Continue [OF a scenario_step1] traceLoop_Break [OF b scenario_step2])
qed

text \<open>
  Claim C9. Emitter at (0,50), one vertical mirror from (50,0) to (50,100), target at
  (100,50) with radius 15, direction (1,0): with a bounce limit of at least 2 the ray is
  reflected once at (50,50) and escapes leftward; the path is
  \<open>[(0,50), (50,50), (-1950,50)]\<close> and the trace fails.
\<close>

theorem scenario_mirror_trace:
  assumes "2 \<le> mb"
  shows "fst (traceRay (scenarioGame mb ps) rnd \<lparr>v_x = 0, v_y = 50\<rparr> \<lparr>v_x = 1, v_y = 0\<rparr>)
         = \<lparr>path = [\<lparr>v_x = 0, v_y = 50\<rparr>, \<lparr>v_x = 50, v_y = 50\<rparr>, \<lparr>v_x = - 1950, v_y = 50\<rparr>],
            success = False\<rparr>"
  using scenario_run [OF assms, of ps rnd]
  by (simp add: traceRay_def traceRun_def Let_def scenarioStart_def [symmetric] scenarioMid_simps)

lemma bounce_points:
  "\<exists>p. points (stepState (bounce st)) = points st @ [p]"
  by (auto simp: bounce_def stepState_def Let_def withParticles_phys split: option.splits)

lemma bounce_Continue_noHit:
  "bounce st = Continue st' \<Longrightarrow> \<not> hitTarget st'"
  by (auto simp: bounce_def Let_def split: option.splits if_splits)

lemma bounce_Escaped_hit:
  "bounce st = Break Escaped st' \<Longrightarrow>
     hitTarget st' = hitTarget st \<and> points st' = points st @ [farPoint st]
     \<and> currPos st' = currPos st \<and> currDir st' = currDir st"
  by (auto simp: bounce_def Let_def farPoint_def split: option.splits if_splits)

lemma traceLoop_inv:
  "r_iters (traceLoop i st) \<le> nat (g_maxBounces (this st) - i)
   \<and> length (points (r_state (traceLoop i st))) = length (points st) + r_iters (traceLoop i st)
   \<and> (r_exit (traceLoop i st) = None \<longrightarrow>
        r_iters (traceLoop i st) = nat (g_maxBounces (this st) - i)
        \<and> (\<not> hitTarget st \<longrightarrow> \<not> hitTarget (r_state (traceLoop i st))))
   \<and> (r_exit (traceLoop i st) = Some Escaped \<longrightarrow> \<not> hitTarget st \<longrightarrow>
        \<not> hitTarget (r_state (traceLoop i st))
        \<and> last (points (r_state (traceLoop i st))) = farPoint (r_state (traceLoop i st)))"
proof (induction i st rule: traceLoop.induct)
  case (1 i st)
  show ?case
  proof (cases "i < g_maxBounces (this st)")
    case False
    then show ?thesis by (simp add: traceLoop_limit)
  next
    case True
    show ?thesis
    proof (cases "bounce st")
      case (Break why st')
      from bounce_points [of st] Break obtain p where p: "points st' = points st @ [p]"
        by (auto simp: stepState_def)
      have it: "(1::nat) \<le> nat (g_maxBounces (this st) - i)" using True by simp
      show ?thesis
      proof (cases why)
        case Escaped
        with Break bounce_Escaped_hit [of st st'] True it p show ?thesis
          by (simp add: traceLoop_Break [OF True Break] farPoint_def)
      next
        case Absorbed
        with Break True it p show ?thesis by (simp add: traceLoop_Break [OF True Break])
      next
        case TargetHit
        with Break True it p show ?thesis by (simp add: traceLoop_Break [OF True Break])
      qed
    next
      case (Continue st')
      from bounce_points [of st] Continue obtain p where p: "points st' = points st @ [p]"
        by (auto simp: stepState_def)
      have mb: "g_maxBounces (this st') = g_maxBounces (this st)"
        by (rule bounce_Continue_frame(1) [OF Continue])
      have nh: "\<not> hitTarget st'" by (rule bounce_Continue_noHit [OF Continue])
      have arith: "Suc (nat (g_maxBounces (this st) - (i + 1))) = nat (g_maxBounces (this st) - i)"
        using True by simp
      from "1.IH" [OF True Continue] mb nh p arith show ?thesis
        by (simp add: traceLoop_Continue [OF True Continue])
    qed
  qed
qed


text \<open>
  Claim C10. When a pass finds no wall, the far point is appended and the loop is left
  without any target test of that last segment: a trace that ends by escaping has
  \<open>success = false\<close>, wherever the escape segment runs.
\<close>

theorem escape_segment_not_tested:
  assumes "r_exit (traceRun g rnd start dir) = Some Escaped"
  shows "success (fst (traceRay g rnd start dir)) = False
         \<and> last (path (fst (traceRay g rnd start dir)))
             = farPoint (r_state (traceRun g rnd start dir))"
  using traceLoop_inv [of 0 "initState g rnd start dir"] assms
  by (simp add: traceRun_def traceRay_def Let_def initState_def)

text \<open>
  Claim C7. With \<open>maxBounces \<le> 0\<close> the path is the origin alone; with no wall and a
  positive limit it is the origin and the far point along the normalized direction. In
  both cases \<open>success = false\<close>, and the engine and the random source are untouched.
\<close>

theorem trace_degenerate_inputs:
  "(g_maxBounces g \<le> 0 \<longrightarrow>
      traceRay g rnd start dir = (\<lparr>path = [start], success = False\<rparr>, g, rnd))
   \<and> (g_walls g = [] \<and> 0 < g_maxBounces g \<longrightarrow>
      traceRay g rnd start dir
        = (\<lparr>path = [start, Vec2_add start (Vec2_mult (Vec2_normalize dir) 2000)], success = False\<rparr>,
           g, rnd))"
proof (intro conjI impI)
  assume "g_maxBounces g \<le> 0"
  then have "\<not> 0 < g_maxBounces (this (initState g rnd start dir))"
    by (simp add: initState_def)
  from traceLoop_limit [OF this] show "traceRay g rnd start dir = (\<lparr>path = [start], success = False\<rparr>, g, rnd)"
    by (simp add: traceRay_def traceRun_def Let_def initState_def)
next
  assume a: "g_walls g = [] \<and> 0 < g_maxBounces g"
  let ?st = "initState g rnd start dir"
  have lt: "0 < g_maxBounces (this ?st)" using a by (simp add: initState_def)
  have scan: "scanWalls (currPos ?st) (currDir ?st) (g_walls (this ?st)) None = None"
    using a by (simp add: initState_def)
  from traceLoop_Break [OF lt bounce_escape [OF scan]]
  show "traceRay g rnd start dir
        = (\<lparr>path = [start, Vec2_add start (Vec2_mult (Vec2_normalize dir) 2000)], success = False\<rparr>,
           g, rnd)"
    by (simp add: traceRay_def traceRun_def Let_def initState_def farPoint_def Vec2_add_def Vec2_mult_def)
qed

lemma hypot_mono:
  "p * p + q * q \<le> p' * p' + q' * q' \<Longrightarrow> Math_hypot p q \<le> Math_hypot p' q'"
  by (simp add: Math_hypot_def)

lemma hypot_swap: "Math_hypot (p - p') (q - q') = Math_hypot (p' - p) (q' - q)"
proof -
  have "(p - p') * (p - p') + (q - q') * (q - q') = (p' - p) * (p' - p) + (q' - q) * (q' - q)"
    by (simp add: algebra_simps)
  then show ?thesis by (simp add: Math_hypot_def)
qed

lemma dist_commute: "Vec2_dist a b = Vec2_dist b a"
  by (simp add: Vec2_dist_def hypot_swap [of "v_x a"])

lemma clamp_closest:
  fixes L2 b t0 s :: real
  assumes L2: "0 < L2" and t0: "t0 = b / L2" and s: "0 \<le> s" "s \<le> 1"
  shows "L2 * (max 0 (min 1 t0))\<^sup>2 - 2 * b * max 0 (min 1 t0) \<le> L2 * s\<^sup>2 - 2 * b * s"
proof -
  have b: "b = L2 * t0" using L2 t0 by simp
  define t where "t = max 0 (min 1 t0)"
  have diff: "(L2 * s\<^sup>2 - 2 * b * s) - (L2 * t\<^sup>2 - 2 * b * t) = L2 * ((s - t) * (s + t - 2 * t0))"
    by (simp add: b power2_eq_square algebra_simps)
  have "0 \<le> (s - t) * (s + t - 2 * t0)"
  proof -
    consider "t0 < 0" | "0 \<le> t0" "t0 \<le> 1" | "1 < t0" by linarith
    then show ?thesis
    proof cases
      case 1
      then have "t = 0" by (simp add: t_def)
      with 1 s show ?thesis by (simp add: mult_nonneg_nonneg)
    next
      case 2
      then have "t = t0" by (simp add: t_def)
      then have "(s - t) * (s + t - 2 * t0) = (s - t0) * (s - t0)" by simp
      then show ?thesis by simp
    next
      case 3
      then have "t = 1" by (simp add: t_def)
      with 3 s show ?thesis by (simp add: mult_nonpos_nonpos)
    qed
  qed
  with L2 have "0 \<le> L2 * ((s - t) * (s + t - 2 * t0))" by (simp add: mult_nonneg_nonneg)
  with diff show ?thesis by (simp add: t_def)
qed

lemma dist_center_pointAt_sq:
  "(c_x c - (v_x p1 + s * (v_x p2 - v_x p1))) * (c_x c - (v_x p1 + s * (v_x p2 - v_x p1)))
   + (c_y c - (v_y p1 + s * (v_y p2 - v_y p1))) * (c_y c - (v_y p1 + s * (v_y p2 - v_y p1)))
   = ((v_x p1 - v_x p2) * (v_x p1 - v_x p2) + (v_y p1 - v_y p2) * (v_y p1 - v_y p2)) * s\<^sup>2
     - 2 * ((c_x c - v_x p1) * (v_x p2 - v_x p1) + (c_y c - v_y p1) * (v_y p2 - v_y p1)) * s
     + ((c_x c - v_x p1) * (c_x c - v_x p1) + (c_y c - v_y p1) * (c_y c - v_y p1))"
  by (simp add: power2_eq_square algebra_simps)

lemma segmentCircle_closest:
  assumes s: "0 \<le> s" "s \<le> 1"
  shows "\<exists>t. 0 \<le> t \<and> t \<le> 1
           \<and> segmentCircleIntersect p1 p2 c = (Vec2_dist (center c) (pointAt p1 p2 t) < c_r c)
           \<and> Vec2_dist (center c) (pointAt p1 p2 t) \<le> Vec2_dist (center c) (pointAt p1 p2 s)"
proof (cases "(Vec2_dist p1 p2)\<^sup>2 = 0")
  case True
  then have eq: "v_x p1 - v_x p2 = 0" "v_y p1 - v_y p2 = 0"
    by (simp_all add: Vec2_dist_def hypot_eq_0_iff)
  then have same: "pointAt p1 p2 u = p1" for u by (simp add: pointAt_def)
  have "segmentCircleIntersect p1 p2 c = (Vec2_dist (center c) (pointAt p1 p2 0) < c_r c)"
    using True by (simp add: segmentCircleIntersect_def center_def same dist_commute [of p1])
  then show ?thesis by (intro exI [of _ 0]) (simp add: same)
next
  case False
  define L2 where "L2 = (Vec2_dist p1 p2)\<^sup>2"
  define b where "b = (c_x c - v_x p1) * (v_x p2 - v_x p1) + (c_y c - v_y p1) * (v_y p2 - v_y p1)"
  define t where "t = max 0 (min 1 (b / L2))"
  have L2eq: "L2 = (v_x p1 - v_x p2) * (v_x p1 - v_x p2) + (v_y p1 - v_y p2) * (v_y p1 - v_y p2)"
    by (simp add: L2_def Vec2_dist_def hypot_sq)
  have "0 \<le> L2" by (simp add: L2_def)
  with False have L2pos: "0 < L2" by (simp add: L2_def)
  have t01: "0 \<le> t" "t \<le> 1" by (simp_all add: t_def)
  have code: "segmentCircleIntersect p1 p2 c = (Vec2_dist (center c) (pointAt p1 p2 t) < c_r c)"
    using False by (simp add: segmentCircleIntersect_def Let_def center_def pointAt_def
        t_def b_def L2_def)
  have "L2 * t\<^sup>2 - 2 * b * t \<le> L2 * s\<^sup>2 - 2 * b * s"
    unfolding t_def by (rule clamp_closest [OF L2pos refl s])
  then have "Vec2_dist (center c) (pointAt p1 p2 t) \<le> Vec2_dist (center c) (pointAt p1 p2 s)"
    unfolding Vec2_dist_def center_def pointAt_def
    by (intro hypot_mono) (simp add: dist_center_pointAt_sq L2eq [symmetric] b_def [symmetric])
  with t01 code show ?thesis by blast
qed

lemma segmentCircle_iff:
  "segmentCircleIntersect p1 p2 c
   \<longleftrightarrow> (\<exists>s. 0 \<le> s \<and> s \<le> 1 \<and> Vec2_dist (center c) (pointAt p1 p2 s) < c_r c)"
proof
  assume "segmentCircleIntersect p1 p2 c"
  with segmentCircle_closest [of 0 p1 p2 c]
  show "\<exists>s. 0 \<le> s \<and> s \<le> 1 \<and> Vec2_dist (center c) (pointAt p1 p2 s) < c_r c"
    by auto
next
  assume "\<exists>s. 0 \<le> s \<and> s \<le> 1 \<and> Vec2_dist (center c) (pointAt p1 p2 s) < c_r c"
  then obtain s where s: "0 \<le> s" "s \<le> 1" and lt: "Vec2_dist (center c) (pointAt p1 p2 s) < c_r c"
    by blast
  from segmentCircle_closest [OF s, of p1 p2 c] lt show "segmentCircleIntersect p1 p2 c"
    by auto
qed

lemma bounce_hit_target:
  assumes "scanWalls (currPos st) (currDir st) (g_walls (this st)) None = Some (t, closest, w)"
  shows "hitTarget (stepState (bounce st))
         = (hitTarget st \<or> segmentCircleIntersect (currPos st) closest (g_target (this st)))"
    and "last (points (stepState (bounce st))) = closest"
  using assms
  by (auto simp: bounce_def stepState_def Let_def withParticles_phys)

lemma bounce_hit_breaks:
  assumes "hitTarget (stepState (bounce st))"
  shows "\<exists>why st'. bounce st = Break why st' \<and> hitTarget st'"
proof (cases "bounce st")
  case (Break why st')
  with assms show ?thesis by (simp add: stepState_def)
next
  case (Continue st')
  with assms bounce_Continue_noHit [OF Continue] show ?thesis by (simp add: stepState_def)
qed

lemma headState_run:
  "headState g r start dir k = Some st \<Longrightarrow>
     r_state (traceRun g r start dir) = r_state (traceLoop (int k) st) \<and> \<not> hitTarget st"
proof (induction k arbitrary: st)
  case 0
  then show ?case by (auto simp: traceRun_def initState_def)
next
  case (Suc k)
  from Suc.prems obtain st0 where h0: "headState g r start dir k = Some st0"
    and lt: "int k < g_maxBounces (this st0)" and c: "bounce st0 = Continue st"
    by (auto split: option.splits if_splits step.splits)
  from Suc.IH [OF h0] have "r_state (traceRun g r start dir) = r_state (traceLoop (int k) st0)"
    by simp
  also have "\<dots> = r_state (traceLoop (int k + 1) st)"
    by (simp add: traceLoop_Continue [OF lt c])
  finally show ?case using bounce_Continue_noHit [OF c] by (simp add: add.commute)
qed

lemma bounce_absorb:
  assumes "scanWalls (currPos st) (currDir st) (g_walls (this st)) None = Some (t, closest, w)"
    and "w_type w = ''absorb''"
  shows "\<exists>st'. bounce st = Break Absorbed st'"
  using assms by (simp add: bounce_def Let_def)

lemma traceRay_result:
  "fst (traceRay g r start dir)
   = \<lparr>path = points (r_state (traceRun g r start dir)),
      success = hitTarget (r_state (traceRun g r start dir))\<rparr>"
  by (simp add: traceRay_def Let_def)

text \<open>
  Claim C6. On a pass that finds a wall hit, the target flag after the pass is the flag
  before it or the segment test from the current position to the hit point, whatever the
  type of the wall; the test holds exactly when some point of the segment is closer to
  the centre than the radius. A point of the segment at distance \<open>r - eps\<close> sets the
  flag, and every trace that reaches this pass returns \<open>success = true\<close> with the hit
  point as the last point of its path; when every point is at \<open>r + eps\<close> or more the
  flag stays unset, and a trace that this pass ends on an absorbing wall returns
  \<open>success = false\<close>.
\<close>

theorem target_test_before_dispatch:
  assumes hit: "scanWalls (currPos st) (currDir st) (g_walls (this st)) None = Some (t, closest, w)"
  shows "hitTarget (stepState (bounce st))
         = (hitTarget st \<or> segmentCircleIntersect (currPos st) closest (g_target (this st)))
       \<and> segmentCircleIntersect (currPos st) closest (g_target (this st))
         = (\<exists>s. 0 \<le> s \<and> s \<le> 1 \<and>
              Vec2_dist (center (g_target (this st))) (pointAt (currPos st) closest s)
                < c_r (g_target (this st)))
       \<and> (\<forall>eps s. 0 < eps \<and> 0 \<le> s \<and> s \<le> 1 \<and>
              Vec2_dist (center (g_target (this st))) (pointAt (currPos st) closest s)
                = c_r (g_target (this st)) - eps
            \<longrightarrow> hitTarget (stepState (bounce st))
                \<and> (i < g_maxBounces (this st) \<longrightarrow> hitTarget (r_state (traceLoop i st)))
                \<and> (\<forall>g r start dir k.
                      headState g r start dir k = Some st \<and> int k < g_maxBounces (this st)
                      \<longrightarrow> success (fst (traceRay g r start dir)) = True
                          \<and> last (path (fst (traceRay g r start dir))) = closest))
       \<and> (\<forall>eps. 0 \<le> eps \<and> \<not> hitTarget st \<and>
              (\<forall>s. 0 \<le> s \<and> s \<le> 1 \<longrightarrow>
                 Vec2_dist (center (g_target (this st))) (pointAt (currPos st) closest s)
                   \<ge> c_r (g_target (this st)) + eps)
            \<longrightarrow> \<not> hitTarget (stepState (bounce st))
                \<and> (\<forall>g r start dir k.
                      headState g r start dir k = Some st \<and> int k < g_maxBounces (this st)
                      \<and> w_type w = ''absorb''
                      \<longrightarrow> success (fst (traceRay g r start dir)) = False
                          \<and> last (path (fst (traceRay g r start dir))) = closest))"
proof -
  let ?T = "g_target (this st)"
  let ?seg = "segmentCircleIntersect (currPos st) closest ?T"
  let ?st' = "stepState (bounce st)"
  have a: "hitTarget ?st' = (hitTarget st \<or> ?seg)"
    by (rule bounce_hit_target(1) [OF hit])
  have b: "?seg = (\<exists>s. 0 \<le> s \<and> s \<le> 1 \<and>
              Vec2_dist (center ?T) (pointAt (currPos st) closest s) < c_r ?T)"
    by (rule segmentCircle_iff)
  have lastp: "last (points ?st') = closest" by (rule bounce_hit_target(2) [OF hit])
  have broke: "r_state (traceLoop j st) = ?st'"
    if br: "bounce st = Break why st'" and lt: "j < g_maxBounces (this st)" for j why st'
    by (simp add: traceLoop_Break [OF lt br] br stepState_def)
  have loop: "r_state (traceLoop j st) = ?st'"
    if h: "hitTarget ?st'" and lt: "j < g_maxBounces (this st)" for j
  proof -
    from bounce_hit_breaks [OF h] obtain why st' where br: "bounce st = Break why st'" by blast
    show ?thesis by (rule broke [OF br lt])
  qed
  have whole: "success (fst (traceRay g r start dir)) = hitTarget ?st'
               \<and> last (path (fst (traceRay g r start dir))) = closest"
    if hs: "headState g r start dir k = Some st" and fin: "r_state (traceLoop (int k) st) = ?st'"
    for g r start dir k
    using headState_run [OF hs] fin lastp by (simp add: traceRay_result)
  have c: "hitTarget ?st' \<and> (i < g_maxBounces (this st) \<longrightarrow> hitTarget (r_state (traceLoop i st)))
           \<and> (\<forall>g r start dir k.
                 headState g r start dir k = Some st \<and> int k < g_maxBounces (this st)
                 \<longrightarrow> success (fst (traceRay g r start dir)) = True
                     \<and> last (path (fst (traceRay g r start dir))) = closest)"
    if "0 < eps \<and> 0 \<le> s \<and> s \<le> 1 \<and>
        Vec2_dist (center ?T) (pointAt (currPos st) closest s) = c_r ?T - eps" for eps s
  proof -
    from that have "0 \<le> s \<and> s \<le> 1 \<and> Vec2_dist (center ?T) (pointAt (currPos st) closest s) < c_r ?T"
      by simp
    then have ?seg unfolding b by blast
    then have h: "hitTarget ?st'" by (simp add: a)
    have l: "i < g_maxBounces (this st) \<longrightarrow> hitTarget (r_state (traceLoop i st))"
      using loop [OF h] h by simp
    have w: "success (fst (traceRay g r start dir)) = True
             \<and> last (path (fst (traceRay g r start dir))) = closest"
      if "headState g r start dir k = Some st \<and> int k < g_maxBounces (this st)" for g r start dir k
      using whole [of g r start dir k] loop [OF h, of "int k"] that h by simp
    from h l w show ?thesis by blast
  qed
  have d: "\<not> hitTarget ?st'
           \<and> (\<forall>g r start dir k.
                 headState g r start dir k = Some st \<and> int k < g_maxBounces (this st)
                 \<and> w_type w = ''absorb''
                 \<longrightarrow> success (fst (traceRay g r start dir)) = False
                     \<and> last (path (fst (traceRay g r start dir))) = closest)"
    if "0 \<le> eps \<and> \<not> hitTarget st \<and>
        (\<forall>s. 0 \<le> s \<and> s \<le> 1 \<longrightarrow>
           Vec2_dist (center ?T) (pointAt (currPos st) closest s) \<ge> c_r ?T + eps)" for eps
  proof -
    have "\<not> ?seg"
    proof
      assume ?seg
      with b obtain s where "0 \<le> s \<and> s \<le> 1"
        and lt: "Vec2_dist (center ?T) (pointAt (currPos st) closest s) < c_r ?T"
        by blast
      with that have "Vec2_dist (center ?T) (pointAt (currPos st) closest s) \<ge> c_r ?T + eps"
        by blast
      with lt that show False by simp
    qed
    with that have nh: "\<not> hitTarget ?st'" by (simp add: a)
    have w: "success (fst (traceRay g r start dir)) = False
             \<and> last (path (fst (traceRay g r start dir))) = closest"
      if h: "headState g r start dir k = Some st \<and> int k < g_maxBounces (this st)
             \<and> w_type w = ''absorb''" for g r start dir k
    proof -
      from h bounce_absorb [OF hit] obtain st' where br: "bounce st = Break Absorbed st'" by blast
      from h have lt: "int k < g_maxBounces (this st)" by simp
      from whole [of g r start dir k] h broke [OF br lt] nh show ?thesis by simp
    qed
    from nh w show ?thesis by blast
  qed
  from a b c d show ?thesis by blast
qed


lemma sameRay_withParticles:
  "sameRay s1 s2 \<Longrightarrow> sameRay (withParticles p c k s1) (withParticles p' c' k' s2)"
  by (simp add: sameRay_def withParticles_phys withParticles_this)

lemma bounce_sameRay:
  assumes "sameRay s1 s2"
  shows "(\<exists>why a b. bounce s1 = Break why a \<and> bounce s2 = Break why b \<and> sameRay a b)
         \<or> (\<exists>a b. bounce s1 = Continue a \<and> bounce s2 = Continue b \<and> sameRay a b)"
proof -
  from assms have eq: "points s1 = points s2" "currPos s1 = currPos s2" "currDir s1 = currDir s2"
    "hitTarget s1 = hitTarget s2" "g_walls (this s1) = g_walls (this s2)"
    "g_target (this s1) = g_target (this s2)" "g_maxBounces (this s1) = g_maxBounces (this s2)"
    by (simp_all add: sameRay_def)
  show ?thesis
  proof (cases "scanWalls (currPos s2) (currDir s2) (g_walls (this s2)) None")
    case None
    then show ?thesis
      by (simp add: bounce_def eq sameRay_def)
  next
    case (Some h)
    obtain t closest w where h: "h = (t, closest, w)" by (cases h) auto
    show ?thesis
      using Some h
      by (simp add: bounce_def eq Let_def sameRay_def withParticles_phys withParticles_this)
  qed
qed

lemma traceLoop_sameRay:
  "sameRay s1 s2 \<Longrightarrow>
     sameRay (r_state (traceLoop i s1)) (r_state (traceLoop i s2))
     \<and> r_exit (traceLoop i s1) = r_exit (traceLoop i s2)
     \<and> r_iters (traceLoop i s1) = r_iters (traceLoop i s2)"
proof (induction i s1 arbitrary: s2 rule: traceLoop.induct)
  case (1 i s1)
  have mb: "g_maxBounces (this s1) = g_maxBounces (this s2)"
    using "1.prems" by (simp add: sameRay_def)
  show ?case
  proof (cases "i < g_maxBounces (this s1)")
    case False
    with mb "1.prems" show ?thesis by (simp add: traceLoop_limit)
  next
    case True
    then have True2: "i < g_maxBounces (this s2)" using mb by simp
    from bounce_sameRay [OF "1.prems"] show ?thesis
    proof (elim disjE exE conjE)
      fix why a b
      assume b1: "bounce s1 = Break why a" and b2: "bounce s2 = Break why b" and s: "sameRay a b"
      then show ?thesis
        by (simp add: traceLoop_Break [OF True b1] traceLoop_Break [OF True2 b2])
    next
      fix a b
      assume c1: "bounce s1 = Continue a" and c2: "bounce s2 = Continue b" and s: "sameRay a b"
      from "1.IH" [OF True c1 s] show ?thesis
        by (simp add: traceLoop_Continue [OF True c1] traceLoop_Continue [OF True2 c2])
    qed
  qed
qed

lemma grown_refl: "grown ps ps"
  by (simp add: grown_def)

lemma grown_trans: "grown ps ps' \<Longrightarrow> grown ps' ps'' \<Longrightarrow> grown ps ps''"
  by (auto simp: grown_def)

lemma withParticles_particles:
  "grown (g_particles (this st)) (g_particles (this (withParticles p c k st)))"
  by (simp add: grown_def withParticles_def spawnParticles_def spawnOne_def Math_random_def Let_def
      split: prod.splits)

lemma bounce_frame:
  "g_walls (this (stepState (bounce st))) = g_walls (this st)
   \<and> g_target (this (stepState (bounce st))) = g_target (this st)
   \<and> g_maxBounces (this (stepState (bounce st))) = g_maxBounces (this st)
   \<and> grown (g_particles (this st)) (g_particles (this (stepState (bounce st))))"
proof (cases "scanWalls (currPos st) (currDir st) (g_walls (this st)) None")
  case None
  then show ?thesis by (simp add: bounce_def stepState_def grown_refl)
next
  case (Some h)
  obtain t closest w where h: "h = (t, closest, w)" by (cases h) auto
  have wp: "grown (g_particles (this st)) (g_particles (this (withParticles p c k s)))"
    if "g_particles (this s) = g_particles (this st)" for p c k s
    using withParticles_particles [of s p c k] that by simp
  show ?thesis
    using Some h
    by (simp add: bounce_def stepState_def Let_def withParticles_this grown_refl wp)
qed

lemma traceLoop_frame:
  "g_walls (this (r_state (traceLoop i st))) = g_walls (this st)
   \<and> g_target (this (r_state (traceLoop i st))) = g_target (this st)
   \<and> g_maxBounces (this (r_state (traceLoop i st))) = g_maxBounces (this st)
   \<and> grown (g_particles (this st)) (g_particles (this (r_state (traceLoop i st))))"
proof (induction i st rule: traceLoop.induct)
  case (1 i st)
  show ?case
  proof (cases "i < g_maxBounces (this st)")
    case False
    then show ?thesis by (simp add: traceLoop_limit grown_refl)
  next
    case True
    show ?thesis
    proof (cases "bounce st")
      case (Break why st')
      with bounce_frame [of st] show ?thesis
        by (simp add: traceLoop_Break [OF True Break] stepState_def)
    next
      case (Continue st')
      from bounce_frame [of st] Continue have
        "g_walls (this st') = g_walls (this st)" "g_target (this st') = g_target (this st)"
        "g_maxBounces (this st') = g_maxBounces (this st)"
        "grown (g_particles (this st)) (g_particles (this st'))"
        by (simp_all add: stepState_def)
      with "1.IH" [OF True Continue] show ?thesis
        by (simp add: traceLoop_Continue [OF True Continue]) (blast intro: grown_trans)
    qed
  qed
qed

text \<open>
  Claim C4, amended. A trace leaves the walls, the target and the bounce limit of the
  engine unchanged and only appends to its particle list; the returned path and success
  flag depend on the start, the direction, the walls, the target and the bounce limit
  alone, not on the particles or the random draws.
\<close>

theorem trace_frame_and_determinism:
  "g_walls (fst (snd (traceRay g rnd start dir))) = g_walls g
   \<and> g_target (fst (snd (traceRay g rnd start dir))) = g_target g
   \<and> g_maxBounces (fst (snd (traceRay g rnd start dir))) = g_maxBounces g
   \<and> grown (g_particles g) (g_particles (fst (snd (traceRay g rnd start dir))))
   \<and> (\<forall>g2 rnd2. g_walls g2 = g_walls g \<and> g_target g2 = g_target g
          \<and> g_maxBounces g2 = g_maxBounces g
        \<longrightarrow> fst (traceRay g2 rnd2 start dir) = fst (traceRay g rnd start dir))"
proof -
  have det: "fst (traceRay g2 rnd2 start dir) = fst (traceRay g rnd start dir)"
    if "g_walls g2 = g_walls g \<and> g_target g2 = g_target g \<and> g_maxBounces g2 = g_maxBounces g"
    for g2 rnd2
  proof -
    have "sameRay (initState g2 rnd2 start dir) (initState g rnd start dir)"
      using that by (simp add: sameRay_def initState_def)
    from traceLoop_sameRay [OF this, of 0] show ?thesis
      by (simp add: traceRay_def traceRun_def Let_def sameRay_def)
  qed
  have frame: "g_walls (fst (snd (traceRay g rnd start dir))) = g_walls g
      \<and> g_target (fst (snd (traceRay g rnd start dir))) = g_target g
      \<and> g_maxBounces (fst (snd (traceRay g rnd start dir))) = g_maxBounces g
      \<and> grown (g_particles g) (g_particles (fst (snd (traceRay g rnd start dir))))"
    using traceLoop_frame [of 0 "initState g rnd start dir"]
    by (simp add: traceRay_def traceRun_def Let_def initState_def)
  from frame det show ?thesis by blast
qed

subsection \<open>Concrete runs\<close>

theorem scenario_mirror_trace_witness:
  "2 \<le> CONFIG_defaultMaxBounces
   \<and> fst (traceRay (scenarioGame CONFIG_defaultMaxBounces []) (\<lambda>_. 0)
          \<lparr>v_x = 0, v_y = 50\<rparr> \<lparr>v_x = 1, v_y = 0\<rparr>)
       = \<lparr>path = [\<lparr>v_x = 0, v_y = 50\<rparr>, \<lparr>v_x = 50, v_y = 50\<rparr>, \<lparr>v_x = - 1950, v_y = 50\<rparr>],
          success = False\<rparr>"
proof -
  have h: "2 \<le> CONFIG_defaultMaxBounces" by (simp add: CONFIG_defaultMaxBounces_def)
  from scenario_mirror_trace [OF h, of "[]" "\<lambda>_. 0"] h show ?thesis by simp
qed

lemma scenario_built:
  "\<forall>w \<in> set (g_walls (this (scenarioStart mb ps rnd))). w_normal w = calculateNormal (w_a w) (w_b w)"
  by (simp add: scenarioStart_simps) (simp add: scenarioWall_def mkWall_def)

lemma scenario_scan_start:
  "scanWalls (currPos (scenarioStart mb ps rnd)) (currDir (scenarioStart mb ps rnd))
     (g_walls (this (scenarioStart mb ps rnd))) None
   = Some (50, \<lparr>v_x = 50, v_y = 50\<rparr>, scenarioWall)"
  by (simp only: scenarioStart_simps scenario_scan1)

theorem mirror_reflection_law_witness:
  "Vec2_mag (currDir (scenarioStart 20 [] (\<lambda>_. 0))) = 1
   \<and> w_normal scenarioWall = calculateNormal (w_a scenarioWall) (w_b scenarioWall)
   \<and> scanWalls (currPos (scenarioStart 20 [] (\<lambda>_. 0))) (currDir (scenarioStart 20 [] (\<lambda>_. 0)))
        (g_walls (this (scenarioStart 20 [] (\<lambda>_. 0)))) None
      = Some (50, \<lparr>v_x = 50, v_y = 50\<rparr>, scenarioWall)
   \<and> w_type scenarioWall = ''mirror''
   \<and> currDir (stepState (bounce (scenarioStart 20 [] (\<lambda>_. 0)))) = \<lparr>v_x = - 1, v_y = 0\<rparr>
   \<and> Vec2_mag (currDir (stepState (bounce (scenarioStart 20 [] (\<lambda>_. 0))))) = 1
   \<and> Vec2_dot \<lparr>v_x = 1, v_y = 0\<rparr> \<lparr>v_x = - 1, v_y = 0\<rparr>
       = - Vec2_dot (currDir (stepState (bounce (scenarioStart 20 [] (\<lambda>_. 0))))) \<lparr>v_x = - 1, v_y = 0\<rparr>"
proof -
  let ?st = "scenarioStart 20 [] (\<lambda>_. 0)"
  have h1: "Vec2_mag (currDir ?st) = 1" by (simp add: scenarioStart_simps Vec2_mag_def)
  have h2: "w_normal scenarioWall = calculateNormal (w_a scenarioWall) (w_b scenarioWall)"
    by (simp add: scenarioWall_def mkWall_def)
  note h3 = scenario_scan_start [of 20 "[]" "\<lambda>_. 0"]
  note h4 = scenarioWall_simps(3)
  note c = mirror_reflection_law [OF h1 scenario_built h3 h4,
      unfolded Let_def scenarioStart_simps scenarioWall_simps Vec2_dot_def Vec2_mult_def Vec2_sub_def,
      simplified]
  have n: "Vec2_normalize \<lparr>v_x = - 1, v_y = 0\<rparr> = \<lparr>v_x = - 1, v_y = 0\<rparr>"
    by (simp add: Vec2_normalize_def)
  from c have "currDir (stepState (bounce ?st)) = Vec2_normalize \<lparr>v_x = - 1, v_y = 0\<rparr>"
    by (rule conjunct1)
  then have d: "currDir (stepState (bounce ?st)) = \<lparr>v_x = - 1, v_y = 0\<rparr>"
    by (simp only: n)
  have rest: "Vec2_mag \<lparr>v_x = - 1, v_y = 0\<rparr> = 1
       \<and> Vec2_dot \<lparr>v_x = 1, v_y = 0\<rparr> \<lparr>v_x = - 1, v_y = 0\<rparr>
           = - Vec2_dot \<lparr>v_x = - 1, v_y = 0\<rparr> \<lparr>v_x = - 1, v_y = 0\<rparr>"
    by (simp add: Vec2_mag_def Vec2_dot_def)
  from h1 h2 h3 h4 d rest show ?thesis by (simp only: simp_thms)
qed

lemma glassWall_simps:
  "w_a glassWall = \<lparr>v_x = 40, v_y = 80\<rparr>"
  "w_b glassWall = \<lparr>v_x = 40, v_y = 20\<rparr>"
  "w_type glassWall = ''glass''"
  "w_normal glassWall = \<lparr>v_x = 1, v_y = 0\<rparr>"
  by (simp_all add: glassWall_def mkWall_def calculateNormal_def Vec2_normalize_def Let_def)

lemma normalize_345: "Vec2_normalize \<lparr>v_x = 3 / 5, v_y = 4 / 5\<rparr> = \<lparr>v_x = 3 / 5, v_y = 4 / 5\<rparr>"
  by (simp add: Vec2_normalize_def Math_hypot_def)

lemma glassStart_simps:
  "currPos (glassStart start dir) = start"
  "currDir (glassStart start dir) = Vec2_normalize dir"
  "g_walls (this (glassStart start dir)) = [glassWall]"
  by (simp_all add: glassStart_def initState_def)

lemma glass_built:
  "\<forall>w \<in> set (g_walls (this (glassStart start dir))). w_normal w = calculateNormal (w_a w) (w_b w)"
  by (simp add: glassStart_simps) (simp add: glassWall_def mkWall_def)

lemma glass_scan_tir:
  "scanWalls (currPos (glassStart \<lparr>v_x = 10, v_y = 30\<rparr> \<lparr>v_x = 3 / 5, v_y = 4 / 5\<rparr>))
     (currDir (glassStart \<lparr>v_x = 10, v_y = 30\<rparr> \<lparr>v_x = 3 / 5, v_y = 4 / 5\<rparr>))
     (g_walls (this (glassStart \<lparr>v_x = 10, v_y = 30\<rparr> \<lparr>v_x = 3 / 5, v_y = 4 / 5\<rparr>))) None
   = Some (50, \<lparr>v_x = 40, v_y = 70\<rparr>, glassWall)"
  by (simp add: glassStart_simps normalize_345 glassWall_simps getLineIntersection_def
      Vec2_dot_def Let_def epsilon_def)

lemma glass_scan_head_on:
  "scanWalls (currPos (glassStart \<lparr>v_x = 10, v_y = 50\<rparr> \<lparr>v_x = 1, v_y = 0\<rparr>))
     (currDir (glassStart \<lparr>v_x = 10, v_y = 50\<rparr> \<lparr>v_x = 1, v_y = 0\<rparr>))
     (g_walls (this (glassStart \<lparr>v_x = 10, v_y = 50\<rparr> \<lparr>v_x = 1, v_y = 0\<rparr>))) None
   = Some (30, \<lparr>v_x = 40, v_y = 50\<rparr>, glassWall)"
  by (simp add: glassStart_simps normalize_x glassWall_simps getLineIntersection_def
      Vec2_dot_def Let_def epsilon_def)

theorem glass_snell_witness:
  "Vec2_mag (currDir (glassStart \<lparr>v_x = 10, v_y = 30\<rparr> \<lparr>v_x = 3 / 5, v_y = 4 / 5\<rparr>)) = 1
   \<and> w_normal glassWall = calculateNormal (w_a glassWall) (w_b glassWall)
   \<and> scanWalls (currPos (glassStart \<lparr>v_x = 10, v_y = 30\<rparr> \<lparr>v_x = 3 / 5, v_y = 4 / 5\<rparr>))
        (currDir (glassStart \<lparr>v_x = 10, v_y = 30\<rparr> \<lparr>v_x = 3 / 5, v_y = 4 / 5\<rparr>))
        (g_walls (this (glassStart \<lparr>v_x = 10, v_y = 30\<rparr> \<lparr>v_x = 3 / 5, v_y = 4 / 5\<rparr>))) None
      = Some (50, \<lparr>v_x = 40, v_y = 70\<rparr>, glassWall)
   \<and> w_type glassWall = ''glass''
   \<and> currDir (stepState (bounce (glassStart \<lparr>v_x = 10, v_y = 30\<rparr> \<lparr>v_x = 3 / 5, v_y = 4 / 5\<rparr>)))
       = \<lparr>v_x = - (3 / 5), v_y = 4 / 5\<rparr>
   \<and> Vec2_mag (currDir (glassStart \<lparr>v_x = 10, v_y = 50\<rparr> \<lparr>v_x = 1, v_y = 0\<rparr>)) = 1
   \<and> scanWalls (currPos (glassStart \<lparr>v_x = 10, v_y = 50\<rparr> \<lparr>v_x = 1, v_y = 0\<rparr>))
        (currDir (glassStart \<lparr>v_x = 10, v_y = 50\<rparr> \<lparr>v_x = 1, v_y = 0\<rparr>))
        (g_walls (this (glassStart \<lparr>v_x = 10, v_y = 50\<rparr> \<lparr>v_x = 1, v_y = 0\<rparr>))) None
      = Some (30, \<lparr>v_x = 40, v_y = 50\<rparr>, glassWall)
   \<and> currDir (stepState (bounce (glassStart \<lparr>v_x = 10, v_y = 50\<rparr> \<lparr>v_x = 1, v_y = 0\<rparr>)))
       = \<lparr>v_x = 1, v_y = 0\<rparr>"
proof -
  let ?a = "glassStart \<lparr>v_x = 10, v_y = 30\<rparr> \<lparr>v_x = 3 / 5, v_y = 4 / 5\<rparr>"
  let ?b = "glassStart \<lparr>v_x = 10, v_y = 50\<rparr> \<lparr>v_x = 1, v_y = 0\<rparr>"
  have a1: "Vec2_mag (currDir ?a) = 1"
    by (simp add: glassStart_simps normalize_345 Vec2_mag_def Math_hypot_def)
  have b1: "Vec2_mag (currDir ?b) = 1"
    by (simp add: glassStart_simps normalize_x Vec2_mag_def)
  have h2: "w_normal glassWall = calculateNormal (w_a glassWall) (w_b glassWall)"
    by (simp add: glassWall_def mkWall_def)
  note h4 = glassWall_simps(3)
  note ca = glass_snell [OF a1 glass_built glass_scan_tir h4,
      unfolded Let_def glassStart_simps normalize_345 glassWall_simps Vec2_dot_def Vec2_mult_def
        Vec2_sub_def Vec2_add_def CONFIG_refractiveIndex_def CONFIG_airIndex_def power2_eq_square,
      simplified]
  note cb = glass_snell [OF b1 glass_built glass_scan_head_on h4,
      unfolded Let_def glassStart_simps normalize_x glassWall_simps Vec2_dot_def Vec2_mult_def
        Vec2_sub_def Vec2_add_def CONFIG_refractiveIndex_def CONFIG_airIndex_def power2_eq_square,
      simplified]
  have na: "Vec2_normalize \<lparr>v_x = - (3 / 5), v_y = 4 / 5\<rparr> = \<lparr>v_x = - (3 / 5), v_y = 4 / 5\<rparr>"
    by (simp add: Vec2_normalize_def Math_hypot_def)
  from ca have "currDir (stepState (bounce ?a)) = Vec2_normalize \<lparr>v_x = - (3 / 5), v_y = 4 / 5\<rparr>"
    by (rule conjunct1)
  then have da: "currDir (stepState (bounce ?a)) = \<lparr>v_x = - (3 / 5), v_y = 4 / 5\<rparr>"
    by (simp only: na)
  from cb have db: "currDir (stepState (bounce ?b)) = \<lparr>v_x = 1, v_y = 0\<rparr>"
    by (rule conjunct1)
  from a1 b1 h2 h4 glass_scan_tir glass_scan_head_on da db show ?thesis
    by (simp only: simp_thms)
qed



lemma empty_run:
  "traceRun emptyGame (\<lambda>_. 0) \<lparr>v_x = 0, v_y = 0\<rparr> \<lparr>v_x = 1, v_y = 0\<rparr>
   = \<lparr>r_state = (initState emptyGame (\<lambda>_. 0) \<lparr>v_x = 0, v_y = 0\<rparr> \<lparr>v_x = 1, v_y = 0\<rparr>)
                  \<lparr>points := [\<lparr>v_x = 0, v_y = 0\<rparr>, \<lparr>v_x = 2000, v_y = 0\<rparr>]\<rparr>,
      r_exit = Some Escaped, r_iters = 1\<rparr>"
proof -
  let ?st = "initState emptyGame (\<lambda>_. 0) \<lparr>v_x = 0, v_y = 0\<rparr> \<lparr>v_x = 1, v_y = 0\<rparr>"
  have lt: "0 < g_maxBounces (this ?st)" by (simp add: initState_def emptyGame_def)
  have scan: "scanWalls (currPos ?st) (currDir ?st) (g_walls (this ?st)) None = None"
    by (simp add: initState_def emptyGame_def)
  from traceLoop_Break [OF lt bounce_escape [OF scan]] show ?thesis
    by (simp add: traceRun_def farPoint_def) (simp add: initState_def normalize_x)
qed

theorem escape_segment_not_tested_witness:
  "r_exit (traceRun emptyGame (\<lambda>_. 0) \<lparr>v_x = 0, v_y = 0\<rparr> \<lparr>v_x = 1, v_y = 0\<rparr>) = Some Escaped
   \<and> path (fst (traceRay emptyGame (\<lambda>_. 0) \<lparr>v_x = 0, v_y = 0\<rparr> \<lparr>v_x = 1, v_y = 0\<rparr>))
       = [\<lparr>v_x = 0, v_y = 0\<rparr>, \<lparr>v_x = 2000, v_y = 0\<rparr>]
   \<and> segmentCircleIntersect \<lparr>v_x = 0, v_y = 0\<rparr> \<lparr>v_x = 2000, v_y = 0\<rparr> (g_target emptyGame)
   \<and> success (fst (traceRay emptyGame (\<lambda>_. 0) \<lparr>v_x = 0, v_y = 0\<rparr> \<lparr>v_x = 1, v_y = 0\<rparr>)) = False"
proof -
  have ex: "r_exit (traceRun emptyGame (\<lambda>_. 0) \<lparr>v_x = 0, v_y = 0\<rparr> \<lparr>v_x = 1, v_y = 0\<rparr>) = Some Escaped"
    by (simp add: empty_run)
  have p: "path (fst (traceRay emptyGame (\<lambda>_. 0) \<lparr>v_x = 0, v_y = 0\<rparr> \<lparr>v_x = 1, v_y = 0\<rparr>))
       = [\<lparr>v_x = 0, v_y = 0\<rparr>, \<lparr>v_x = 2000, v_y = 0\<rparr>]"
    by (simp add: traceRay_def Let_def empty_run)
  have seg: "segmentCircleIntersect \<lparr>v_x = 0, v_y = 0\<rparr> \<lparr>v_x = 2000, v_y = 0\<rparr> (g_target emptyGame)"
    by (simp add: segmentCircleIntersect_def Vec2_dist_def Let_def emptyGame_def)
  from escape_segment_not_tested [OF ex] ex p seg show ?thesis by simp
qed

theorem trace_degenerate_inputs_witness:
  "g_maxBounces (scenarioGame 0 []) \<le> 0
   \<and> traceRay (scenarioGame 0 []) (\<lambda>_. 0) \<lparr>v_x = 0, v_y = 50\<rparr> \<lparr>v_x = 1, v_y = 0\<rparr>
       = (\<lparr>path = [\<lparr>v_x = 0, v_y = 50\<rparr>], success = False\<rparr>, scenarioGame 0 [], \<lambda>_. 0)
   \<and> g_walls emptyGame = [] \<and> 0 < g_maxBounces emptyGame
   \<and> traceRay emptyGame (\<lambda>_. 0) \<lparr>v_x = 0, v_y = 0\<rparr> \<lparr>v_x = 1, v_y = 0\<rparr>
       = (\<lparr>path = [\<lparr>v_x = 0, v_y = 0\<rparr>, \<lparr>v_x = 2000, v_y = 0\<rparr>], success = False\<rparr>,
          emptyGame, \<lambda>_. 0)"
proof -
  have h1: "g_maxBounces (scenarioGame 0 []) \<le> 0" by (simp add: scenarioGame_def)
  have h2: "g_walls emptyGame = [] \<and> 0 < g_maxBounces emptyGame" by (simp add: emptyGame_def)
  have far: "Vec2_add \<lparr>v_x = 0, v_y = 0\<rparr> (Vec2_mult (Vec2_normalize \<lparr>v_x = 1, v_y = 0\<rparr>) 2000)
             = \<lparr>v_x = 2000, v_y = 0\<rparr>"
    by (simp add: normalize_x Vec2_add_def Vec2_mult_def)
  from trace_degenerate_inputs [of "scenarioGame 0 []" "\<lambda>_. 0" "\<lparr>v_x = 0, v_y = 50\<rparr>" "\<lparr>v_x = 1, v_y = 0\<rparr>"] h1
  have a: "traceRay (scenarioGame 0 []) (\<lambda>_. 0) \<lparr>v_x = 0, v_y = 50\<rparr> \<lparr>v_x = 1, v_y = 0\<rparr>
       = (\<lparr>path = [\<lparr>v_x = 0, v_y = 50\<rparr>], success = False\<rparr>, scenarioGame 0 [], \<lambda>_. 0)"
    by blast
  from trace_degenerate_inputs [of emptyGame "\<lambda>_. 0" "\<lparr>v_x = 0, v_y = 0\<rparr>" "\<lparr>v_x = 1, v_y = 0\<rparr>"] h2
  have b: "traceRay emptyGame (\<lambda>_. 0) \<lparr>v_x = 0, v_y = 0\<rparr> \<lparr>v_x = 1, v_y = 0\<rparr>
       = (\<lparr>path = [\<lparr>v_x = 0, v_y = 0\<rparr>,
            Vec2_add \<lparr>v_x = 0, v_y = 0\<rparr> (Vec2_mult (Vec2_normalize \<lparr>v_x = 1, v_y = 0\<rparr>) 2000)],
            success = False\<rparr>, emptyGame, \<lambda>_. 0)"
    by blast
  from h1 h2 a b [unfolded far] show ?thesis by (simp only: simp_thms)
qed

lemma nearStart_simps:
  "currPos nearStart = \<lparr>v_x = 0, v_y = 50\<rparr>"
  "currDir nearStart = \<lparr>v_x = 1, v_y = 0\<rparr>"
  "g_walls (this nearStart) = [scenarioWall]"
  "g_target (this nearStart) = \<lparr>c_x = 25, c_y = 60, c_r = 15\<rparr>"
  "g_maxBounces (this nearStart) = 20"
  "hitTarget nearStart = False"
  by (simp_all add: nearStart_def nearGame_def initState_def normalize_x)

lemma near_scan:
  "scanWalls (currPos nearStart) (currDir nearStart) (g_walls (this nearStart)) None
   = Some (50, \<lparr>v_x = 50, v_y = 50\<rparr>, scenarioWall)"
  by (simp only: nearStart_simps scenario_scan1)

lemma scenario_far_from_target:
  assumes "0 \<le> s \<and> s \<le> 1"
  shows "c_r (g_target (this (scenarioStart 20 [] (\<lambda>_. 0)))) + 35
         \<le> Vec2_dist (center (g_target (this (scenarioStart 20 [] (\<lambda>_. 0)))))
              (pointAt (currPos (scenarioStart 20 [] (\<lambda>_. 0))) \<lparr>v_x = 50, v_y = 50\<rparr> s)"
proof -
  have "(50::real) \<le> \<bar>100 - s * 50\<bar>" using assms by simp
  then show ?thesis
    by (simp add: scenarioStart_simps center_def pointAt_def Vec2_dist_def)
qed

lemma absorbWall_simps:
  "w_a absorbWall = \<lparr>v_x = - 50, v_y = 0\<rparr>"
  "w_b absorbWall = \<lparr>v_x = - 50, v_y = 100\<rparr>"
  "w_type absorbWall = ''absorb''"
  by (simp_all add: absorbWall_def mkWall_def)

lemma absorbStart_simps:
  "points absorbStart = [\<lparr>v_x = 30, v_y = 50\<rparr>]"
  "currPos absorbStart = \<lparr>v_x = 30, v_y = 50\<rparr>"
  "currDir absorbStart = \<lparr>v_x = 1, v_y = 0\<rparr>"
  "hitTarget absorbStart = False"
  "g_walls (this absorbStart) = [scenarioWall, absorbWall]"
  "g_target (this absorbStart) = \<lparr>c_x = 0, c_y = 50, c_r = 15\<rparr>"
  "g_maxBounces (this absorbStart) = 20"
  by (simp_all add: absorbStart_def initState_def absorbGame_def normalize_x)

lemma absorbMid_simps:
  "points absorbMid = [\<lparr>v_x = 30, v_y = 50\<rparr>, \<lparr>v_x = 50, v_y = 50\<rparr>]"
  "currPos absorbMid = \<lparr>v_x = 50, v_y = 50\<rparr>"
  "currDir absorbMid = \<lparr>v_x = - 1, v_y = 0\<rparr>"
  "hitTarget absorbMid = False"
  "g_walls (this absorbMid) = [scenarioWall, absorbWall]"
  "g_target (this absorbMid) = \<lparr>c_x = 0, c_y = 50, c_r = 15\<rparr>"
  "g_maxBounces (this absorbMid) = 20"
  by (simp_all add: absorbMid_def withParticles_phys withParticles_this absorbStart_simps)

lemma absorb_scan0:
  "scanWalls (currPos absorbStart) (currDir absorbStart) (g_walls (this absorbStart)) None
   = Some (20, \<lparr>v_x = 50, v_y = 50\<rparr>, scenarioWall)"
  by (simp add: absorbStart_simps scenarioWall_simps absorbWall_simps getLineIntersection_def
      Vec2_dot_def Let_def epsilon_def)

lemma absorb_scan1:
  "scanWalls (currPos absorbMid) (currDir absorbMid) (g_walls (this absorbMid)) None
   = Some (100, \<lparr>v_x = - 50, v_y = 50\<rparr>, absorbWall)"
  by (simp add: absorbMid_simps scenarioWall_simps absorbWall_simps getLineIntersection_def
      Vec2_dot_def Let_def epsilon_def)

lemma absorb_miss0:
  "\<not> segmentCircleIntersect (currPos absorbStart) \<lparr>v_x = 50, v_y = 50\<rparr> (g_target (this absorbStart))"
  by (simp add: absorbStart_simps segmentCircleIntersect_def Vec2_dist_def Let_def)

lemma absorb_step0: "bounce absorbStart = Continue absorbMid"
proof -
  have nohit: "\<not> hitTarget absorbStart" by (simp add: absorbStart_simps)
  show ?thesis
    using bounce_mirror_miss [OF absorb_scan0 scenarioWall_simps(3) absorb_miss0 nohit]
    by (simp add: absorbMid_def absorbStart_simps scenarioWall_simps scenario_mirror)
qed

lemma absorb_head:
  "headState absorbGame (\<lambda>_. 0) \<lparr>v_x = 30, v_y = 50\<rparr> \<lparr>v_x = 1, v_y = 0\<rparr> (Suc 0) = Some absorbMid"
  by (simp add: absorbStart_def [symmetric] absorbStart_simps absorb_step0)

lemma near_head:
  "headState nearGame (\<lambda>_. 0) \<lparr>v_x = 0, v_y = 50\<rparr> \<lparr>v_x = 1, v_y = 0\<rparr> 0 = Some nearStart"
  by (simp add: nearStart_def)

lemma normalize_neg_x: "Vec2_normalize \<lparr>v_x = - 1, v_y = 0\<rparr> = \<lparr>v_x = - 1, v_y = 0\<rparr>"
  by (simp add: Vec2_normalize_def Vec2_mag_def Let_def)

lemma missStart_simps:
  "currPos missStart = \<lparr>v_x = 30, v_y = 50\<rparr>"
  "currDir missStart = \<lparr>v_x = - 1, v_y = 0\<rparr>"
  "hitTarget missStart = False"
  "g_walls (this missStart) = [absorbWall]"
  "g_target (this missStart) = \<lparr>c_x = 100, c_y = 50, c_r = 15\<rparr>"
  "g_maxBounces (this missStart) = 20"
  by (simp_all add: missStart_def initState_def missGame_def normalize_neg_x)

lemma miss_scan:
  "scanWalls (currPos missStart) (currDir missStart) (g_walls (this missStart)) None
   = Some (80, \<lparr>v_x = - 50, v_y = 50\<rparr>, absorbWall)"
  by (simp add: missStart_simps absorbWall_simps getLineIntersection_def
      Vec2_dot_def Let_def epsilon_def)

lemma miss_head:
  "headState missGame (\<lambda>_. 0) \<lparr>v_x = 30, v_y = 50\<rparr> \<lparr>v_x = - 1, v_y = 0\<rparr> 0 = Some missStart"
  by (simp add: missStart_def)

lemma miss_far_from_target:
  assumes "0 \<le> s \<and> s \<le> 1"
  shows "c_r (g_target (this missStart)) + 55
         \<le> Vec2_dist (center (g_target (this missStart)))
              (pointAt (currPos missStart) \<lparr>v_x = - 50, v_y = 50\<rparr> s)"
proof -
  have "(70::real) \<le> \<bar>70 + s * 80\<bar>" using assms by simp
  then show ?thesis
    by (simp add: missStart_simps center_def pointAt_def Vec2_dist_def)
qed

theorem target_test_before_dispatch_witness:
  "scanWalls (currPos nearStart) (currDir nearStart) (g_walls (this nearStart)) None
     = Some (50, \<lparr>v_x = 50, v_y = 50\<rparr>, scenarioWall)
   \<and> Vec2_dist (center (g_target (this nearStart)))
        (pointAt (currPos nearStart) \<lparr>v_x = 50, v_y = 50\<rparr> (1 / 2))
      = c_r (g_target (this nearStart)) - 5
   \<and> hitTarget (stepState (bounce nearStart))
   \<and> hitTarget (r_state (traceLoop 0 nearStart))
   \<and> success (fst (traceRay nearGame (\<lambda>_. 0) \<lparr>v_x = 0, v_y = 50\<rparr> \<lparr>v_x = 1, v_y = 0\<rparr>)) = True
   \<and> last (path (fst (traceRay nearGame (\<lambda>_. 0) \<lparr>v_x = 0, v_y = 50\<rparr> \<lparr>v_x = 1, v_y = 0\<rparr>)))
      = \<lparr>v_x = 50, v_y = 50\<rparr>
   \<and> scanWalls (currPos absorbMid) (currDir absorbMid) (g_walls (this absorbMid)) None
     = Some (100, \<lparr>v_x = - 50, v_y = 50\<rparr>, absorbWall)
   \<and> w_type absorbWall = ''absorb''
   \<and> headState absorbGame (\<lambda>_. 0) \<lparr>v_x = 30, v_y = 50\<rparr> \<lparr>v_x = 1, v_y = 0\<rparr> (Suc 0) = Some absorbMid
   \<and> Vec2_dist (center (g_target (this absorbMid)))
        (pointAt (currPos absorbMid) \<lparr>v_x = - 50, v_y = 50\<rparr> (1 / 2))
      = c_r (g_target (this absorbMid)) - 15
   \<and> success (fst (traceRay absorbGame (\<lambda>_. 0) \<lparr>v_x = 30, v_y = 50\<rparr> \<lparr>v_x = 1, v_y = 0\<rparr>)) = True
   \<and> last (path (fst (traceRay absorbGame (\<lambda>_. 0) \<lparr>v_x = 30, v_y = 50\<rparr> \<lparr>v_x = 1, v_y = 0\<rparr>)))
      = \<lparr>v_x = - 50, v_y = 50\<rparr>
   \<and> \<not> hitTarget (stepState (bounce (scenarioStart 20 [] (\<lambda>_. 0))))
   \<and> scanWalls (currPos missStart) (currDir missStart) (g_walls (this missStart)) None
     = Some (80, \<lparr>v_x = - 50, v_y = 50\<rparr>, absorbWall)
   \<and> headState missGame (\<lambda>_. 0) \<lparr>v_x = 30, v_y = 50\<rparr> \<lparr>v_x = - 1, v_y = 0\<rparr> 0 = Some missStart
   \<and> \<not> hitTarget (stepState (bounce missStart))
   \<and> success (fst (traceRay missGame (\<lambda>_. 0) \<lparr>v_x = 30, v_y = 50\<rparr> \<lparr>v_x = - 1, v_y = 0\<rparr>)) = False
   \<and> last (path (fst (traceRay missGame (\<lambda>_. 0) \<lparr>v_x = 30, v_y = 50\<rparr> \<lparr>v_x = - 1, v_y = 0\<rparr>)))
      = \<lparr>v_x = - 50, v_y = 50\<rparr>"
proof -
  have d: "Vec2_dist (center (g_target (this nearStart)))
        (pointAt (currPos nearStart) \<lparr>v_x = 50, v_y = 50\<rparr> (1 / 2))
      = c_r (g_target (this nearStart)) - 5"
    by (simp add: nearStart_simps center_def pointAt_def Vec2_dist_def)
  have lt: "0 < g_maxBounces (this nearStart)" by (simp add: nearStart_simps)
  have lt': "int 0 < g_maxBounces (this nearStart)" by (simp add: nearStart_simps)
  note t1 = target_test_before_dispatch [OF near_scan, of 0]
  from t1 have "\<forall>eps s. 0 < eps \<and> 0 \<le> s \<and> s \<le> 1 \<and>
              Vec2_dist (center (g_target (this nearStart))) (pointAt (currPos nearStart) \<lparr>v_x = 50, v_y = 50\<rparr> s)
                = c_r (g_target (this nearStart)) - eps
            \<longrightarrow> hitTarget (stepState (bounce nearStart))
                \<and> (0 < g_maxBounces (this nearStart) \<longrightarrow> hitTarget (r_state (traceLoop 0 nearStart)))
                \<and> (\<forall>g r start dir k.
                      headState g r start dir k = Some nearStart \<and> int k < g_maxBounces (this nearStart)
                      \<longrightarrow> success (fst (traceRay g r start dir)) = True
                          \<and> last (path (fst (traceRay g r start dir))) = \<lparr>v_x = 50, v_y = 50\<rparr>)"
    by blast
  from this [rule_format, of 5 "1 / 2"] d lt
  have hit: "hitTarget (stepState (bounce nearStart))"
    and hitl: "hitTarget (r_state (traceLoop 0 nearStart))"
    and all1: "\<forall>g r start dir k.
                 headState g r start dir k = Some nearStart \<and> int k < g_maxBounces (this nearStart)
                 \<longrightarrow> success (fst (traceRay g r start dir)) = True
                     \<and> last (path (fst (traceRay g r start dir))) = \<lparr>v_x = 50, v_y = 50\<rparr>"
    by simp_all
  from all1 [rule_format, of nearGame "\<lambda>_. 0" "\<lparr>v_x = 0, v_y = 50\<rparr>" "\<lparr>v_x = 1, v_y = 0\<rparr>" 0] near_head lt'
  have win1: "success (fst (traceRay nearGame (\<lambda>_. 0) \<lparr>v_x = 0, v_y = 50\<rparr> \<lparr>v_x = 1, v_y = 0\<rparr>)) = True
      \<and> last (path (fst (traceRay nearGame (\<lambda>_. 0) \<lparr>v_x = 0, v_y = 50\<rparr> \<lparr>v_x = 1, v_y = 0\<rparr>)))
        = \<lparr>v_x = 50, v_y = 50\<rparr>"
    by blast
  have d2: "Vec2_dist (center (g_target (this absorbMid)))
        (pointAt (currPos absorbMid) \<lparr>v_x = - 50, v_y = 50\<rparr> (1 / 2))
      = c_r (g_target (this absorbMid)) - 15"
    by (simp add: absorbMid_simps center_def pointAt_def Vec2_dist_def)
  have lt2: "int (Suc 0) < g_maxBounces (this absorbMid)" by (simp add: absorbMid_simps)
  note t3 = target_test_before_dispatch [OF absorb_scan1, of 0]
  from t3 have "\<forall>eps s. 0 < eps \<and> 0 \<le> s \<and> s \<le> 1 \<and>
              Vec2_dist (center (g_target (this absorbMid))) (pointAt (currPos absorbMid) \<lparr>v_x = - 50, v_y = 50\<rparr> s)
                = c_r (g_target (this absorbMid)) - eps
            \<longrightarrow> (\<forall>g r start dir k.
                      headState g r start dir k = Some absorbMid \<and> int k < g_maxBounces (this absorbMid)
                      \<longrightarrow> success (fst (traceRay g r start dir)) = True
                          \<and> last (path (fst (traceRay g r start dir))) = \<lparr>v_x = - 50, v_y = 50\<rparr>)"
    by blast
  from this [rule_format, of 15 "1 / 2"] d2
  have all2: "\<forall>g r start dir k.
                 headState g r start dir k = Some absorbMid \<and> int k < g_maxBounces (this absorbMid)
                 \<longrightarrow> success (fst (traceRay g r start dir)) = True
                     \<and> last (path (fst (traceRay g r start dir))) = \<lparr>v_x = - 50, v_y = 50\<rparr>"
    by simp
  from all2 [rule_format, of absorbGame "\<lambda>_. 0" "\<lparr>v_x = 30, v_y = 50\<rparr>" "\<lparr>v_x = 1, v_y = 0\<rparr>" "Suc 0"]
    absorb_head lt2
  have win2: "success (fst (traceRay absorbGame (\<lambda>_. 0) \<lparr>v_x = 30, v_y = 50\<rparr> \<lparr>v_x = 1, v_y = 0\<rparr>)) = True
      \<and> last (path (fst (traceRay absorbGame (\<lambda>_. 0) \<lparr>v_x = 30, v_y = 50\<rparr> \<lparr>v_x = 1, v_y = 0\<rparr>)))
        = \<lparr>v_x = - 50, v_y = 50\<rparr>"
    by blast
  note t2 = target_test_before_dispatch [OF scenario_scan_start [of 20 "[]" "\<lambda>_. 0"], of 0]
  from t2 have "\<forall>eps. 0 \<le> eps \<and> \<not> hitTarget (scenarioStart 20 [] (\<lambda>_. 0)) \<and>
              (\<forall>s. 0 \<le> s \<and> s \<le> 1 \<longrightarrow>
                 Vec2_dist (center (g_target (this (scenarioStart 20 [] (\<lambda>_. 0)))))
                   (pointAt (currPos (scenarioStart 20 [] (\<lambda>_. 0))) \<lparr>v_x = 50, v_y = 50\<rparr> s)
                   \<ge> c_r (g_target (this (scenarioStart 20 [] (\<lambda>_. 0)))) + eps)
            \<longrightarrow> \<not> hitTarget (stepState (bounce (scenarioStart 20 [] (\<lambda>_. 0))))"
    by blast
  from this [rule_format, of 35] scenario_far_from_target
  have miss: "\<not> hitTarget (stepState (bounce (scenarioStart 20 [] (\<lambda>_. 0))))"
    by (simp add: scenarioStart_simps)
  have lt4: "int 0 < g_maxBounces (this missStart)" by (simp add: missStart_simps)
  have nh4: "\<not> hitTarget missStart" by (simp add: missStart_simps)
  note t4 = target_test_before_dispatch [OF miss_scan, of 0]
  from t4 have "\<forall>eps. 0 \<le> eps \<and> \<not> hitTarget missStart \<and>
              (\<forall>s. 0 \<le> s \<and> s \<le> 1 \<longrightarrow>
                 Vec2_dist (center (g_target (this missStart)))
                   (pointAt (currPos missStart) \<lparr>v_x = - 50, v_y = 50\<rparr> s)
                   \<ge> c_r (g_target (this missStart)) + eps)
            \<longrightarrow> \<not> hitTarget (stepState (bounce missStart))
                \<and> (\<forall>g r start dir k.
                      headState g r start dir k = Some missStart \<and> int k < g_maxBounces (this missStart)
                      \<and> w_type absorbWall = ''absorb''
                      \<longrightarrow> success (fst (traceRay g r start dir)) = False
                          \<and> last (path (fst (traceRay g r start dir))) = \<lparr>v_x = - 50, v_y = 50\<rparr>)"
    by blast
  from this [rule_format, of 55] miss_far_from_target nh4
  have miss4: "\<not> hitTarget (stepState (bounce missStart))"
    and all4: "\<forall>g r start dir k.
                 headState g r start dir k = Some missStart \<and> int k < g_maxBounces (this missStart)
                 \<and> w_type absorbWall = ''absorb''
                 \<longrightarrow> success (fst (traceRay g r start dir)) = False
                     \<and> last (path (fst (traceRay g r start dir))) = \<lparr>v_x = - 50, v_y = 50\<rparr>"
    by simp_all
  from all4 [rule_format, of missGame "\<lambda>_. 0" "\<lparr>v_x = 30, v_y = 50\<rparr>" "\<lparr>v_x = - 1, v_y = 0\<rparr>" 0]
    miss_head lt4 absorbWall_simps(3)
  have lose: "success (fst (traceRay missGame (\<lambda>_. 0) \<lparr>v_x = 30, v_y = 50\<rparr> \<lparr>v_x = - 1, v_y = 0\<rparr>)) = False
      \<and> last (path (fst (traceRay missGame (\<lambda>_. 0) \<lparr>v_x = 30, v_y = 50\<rparr> \<lparr>v_x = - 1, v_y = 0\<rparr>)))
        = \<lparr>v_x = - 50, v_y = 50\<rparr>"
    by blast
  from near_scan d hit hitl win1 absorb_scan1 absorbWall_simps(3) absorb_head d2 win2 miss
    miss_scan miss_head miss4 lose
  show ?thesis by (simp only: simp_thms)
qed


lemma scenarioMid_particles:
  "length (g_particles (this (scenarioMid mb ps rnd))) = length ps + 3"
  by (simp add: scenarioMid_def withParticles_def spawnParticles_def spawnOne_def Math_random_def
      Let_def scenarioStart_simps split: prod.splits)

text \<open>
  The claim C4 as stated fails: in the mirror scenario the engine after the trace is not
  the engine before it (three particles were spawned at the reflection).
\<close>

theorem trace_spawns_particles_counterexample:
  "fst (snd (traceRay (scenarioGame 20 []) (\<lambda>_. 0) \<lparr>v_x = 0, v_y = 50\<rparr> \<lparr>v_x = 1, v_y = 0\<rparr>))
   \<noteq> scenarioGame 20 []"
proof -
  have two: "(2::int) \<le> 20" by simp
  have "length (g_particles (fst (snd (traceRay (scenarioGame 20 []) (\<lambda>_. 0)
            \<lparr>v_x = 0, v_y = 50\<rparr> \<lparr>v_x = 1, v_y = 0\<rparr>)))) = 3"
    using scenario_run [OF two, of "[]" "\<lambda>_. 0"] scenarioMid_particles [of 20 "[]" "\<lambda>_. 0"]
    by (simp add: traceRay_def traceRun_def Let_def scenarioStart_def [symmetric])
  moreover have "length (g_particles (scenarioGame 20 [])) = 0"
    by (simp add: scenarioGame_def)
  ultimately show ?thesis by (metis zero_neq_numeral)
qed

theorem trace_frame_and_determinism_witness:
  "g_walls (scenarioGame 20 [\<lparr>p_x = 1, p_y = 2, p_vx = 3, p_vy = 4, p_life = 1, p_color = ''#fff''\<rparr>])
     = g_walls (scenarioGame 20 [])
   \<and> g_target (scenarioGame 20 [\<lparr>p_x = 1, p_y = 2, p_vx = 3, p_vy = 4, p_life = 1, p_color = ''#fff''\<rparr>])
     = g_target (scenarioGame 20 [])
   \<and> g_maxBounces (scenarioGame 20 [\<lparr>p_x = 1, p_y = 2, p_vx = 3, p_vy = 4, p_life = 1, p_color = ''#fff''\<rparr>])
     = g_maxBounces (scenarioGame 20 [])
   \<and> fst (traceRay (scenarioGame 20 [\<lparr>p_x = 1, p_y = 2, p_vx = 3, p_vy = 4, p_life = 1, p_color = ''#fff''\<rparr>])
            (\<lambda>_. 1 / 2) \<lparr>v_x = 0, v_y = 50\<rparr> \<lparr>v_x = 1, v_y = 0\<rparr>)
     = fst (traceRay (scenarioGame 20 []) (\<lambda>_. 0) \<lparr>v_x = 0, v_y = 50\<rparr> \<lparr>v_x = 1, v_y = 0\<rparr>)
   \<and> g_walls (fst (snd (traceRay (scenarioGame 20 []) (\<lambda>_. 0) \<lparr>v_x = 0, v_y = 50\<rparr> \<lparr>v_x = 1, v_y = 0\<rparr>)))
     = [scenarioWall]"
proof -
  let ?g2 = "scenarioGame 20 [\<lparr>p_x = 1, p_y = 2, p_vx = 3, p_vy = 4, p_life = 1, p_color = ''#fff''\<rparr>]"
  let ?g = "scenarioGame 20 []"
  have h: "g_walls ?g2 = g_walls ?g \<and> g_target ?g2 = g_target ?g \<and> g_maxBounces ?g2 = g_maxBounces ?g"
    by (simp add: scenarioGame_def)
  note t = trace_frame_and_determinism [of ?g "\<lambda>_. 0" "\<lparr>v_x = 0, v_y = 50\<rparr>" "\<lparr>v_x = 1, v_y = 0\<rparr>"]
  from t have "\<forall>g2 rnd2. g_walls g2 = g_walls ?g \<and> g_target g2 = g_target ?g
          \<and> g_maxBounces g2 = g_maxBounces ?g
        \<longrightarrow> fst (traceRay g2 rnd2 \<lparr>v_x = 0, v_y = 50\<rparr> \<lparr>v_x = 1, v_y = 0\<rparr>)
            = fst (traceRay ?g (\<lambda>_. 0) \<lparr>v_x = 0, v_y = 50\<rparr> \<lparr>v_x = 1, v_y = 0\<rparr>)"
    by blast
  from this [rule_format, of ?g2 "\<lambda>_. 1 / 2"] h
  have eq: "fst (traceRay ?g2 (\<lambda>_. 1 / 2) \<lparr>v_x = 0, v_y = 50\<rparr> \<lparr>v_x = 1, v_y = 0\<rparr>)
            = fst (traceRay ?g (\<lambda>_. 0) \<lparr>v_x = 0, v_y = 50\<rparr> \<lparr>v_x = 1, v_y = 0\<rparr>)"
    by blast
  from t have "g_walls (fst (snd (traceRay ?g (\<lambda>_. 0) \<lparr>v_x = 0, v_y = 50\<rparr> \<lparr>v_x = 1, v_y = 0\<rparr>))) = g_walls ?g"
    by blast
  then have w: "g_walls (fst (snd (traceRay ?g (\<lambda>_. 0) \<lparr>v_x = 0, v_y = 50\<rparr> \<lparr>v_x = 1, v_y = 0\<rparr>))) = [scenarioWall]"
    by (simp add: scenarioGame_def)
  from h eq w show ?thesis by (simp only: simp_thms)
qed

section \<open>Properties of the maze generator\<close>

lemma walk_stays:
  assumes "successively E ps" and "ps \<noteq> []" and "hd ps \<in> V" and "\<And>a b. E a b \<Longrightarrow> b \<in> V"
  shows "set ps \<subseteq> V"
  using assms
proof (induction ps)
  case Nil
  then show ?case by simp
next
  case (Cons a ps)
  show ?case
  proof (cases ps)
    case Nil
    with Cons.prems show ?thesis by simp
  next
    case (Cons b qs)
    with Cons.prems have "E a b" and "successively E ps" by simp_all
    with Cons.IH Cons.prems Cons show ?thesis by auto
  qed
qed

lemma simplePath_single: "simplePath E p p ps \<longleftrightarrow> ps = [p]"
proof
  assume sp: "simplePath E p p ps"
  then obtain a qs where ps: "ps = a # qs" by (cases ps) (auto simp: simplePath_def)
  with sp have "a = p" by (simp add: simplePath_def)
  show "ps = [p]"
  proof (cases qs)
    case Nil
    with ps \<open>a = p\<close> show ?thesis by simp
  next
    case (Cons b rs)
    with sp ps \<open>a = p\<close> have "last (b # rs) = p" "p \<notin> set (b # rs)"
      by (simp_all add: simplePath_def)
    then show ?thesis using last_in_set [of "b # rs"] by simp
  qed
next
  assume "ps = [p]"
  then show "simplePath E p p ps" by (simp add: simplePath_def)
qed

lemma treeOn_single: "treeOn (\<lambda>_ _. False) {v}"
  by (simp add: treeOn_def simplePath_single)

lemma treeOn_extend:
  assumes tree: "treeOn E V" and u: "u \<in> V" and v: "v \<notin> V"
  shows "treeOn (\<lambda>a b. E a b \<or> (a = u \<and> b = v) \<or> (a = v \<and> b = u)) (insert v V)"
proof -
  let ?E = "\<lambda>a b. E a b \<or> (a = u \<and> b = v) \<or> (a = v \<and> b = u)"
  from tree have inV: "\<And>a b. E a b \<Longrightarrow> a \<in> V \<and> b \<in> V"
    and uniq: "\<And>p q. p \<in> V \<Longrightarrow> q \<in> V \<Longrightarrow> \<exists>!ps. simplePath E p q ps"
    by (auto simp: treeOn_def)
  have uv: "u \<noteq> v" using u v by auto
  have into_v: "a = u" if "?E a v" for a using that inV v uv by auto
  have from_v: "b = u" if "?E v b" for b using that inV v uv by auto
  have old_walk: "successively E ps" if "successively ?E ps" and "v \<notin> set ps" for ps
    using that(1) by (rule successively_mono) (use that(2) in auto)
  have new_walk: "successively ?E ps" if "successively E ps" for ps
    using that by (rule successively_mono) auto
  have old_in_V: "set ps \<subseteq> V" if "simplePath E p q ps" and "p \<in> V" for p q ps
    using that inV by (intro walk_stays [of E]) (auto simp: simplePath_def)
  have avoid: "v \<notin> set ps" if sp: "simplePath ?E p q ps" and "p \<noteq> v" and "q \<noteq> v" for p q ps
  proof
    assume "v \<in> set ps"
    then obtain i where i: "i < length ps" and vi: "ps ! i = v" by (auto simp: in_set_conv_nth)
    from sp have ne: "ps \<noteq> []" and hd: "hd ps = p" and la: "last ps = q" and di: "distinct ps"
      and su: "successively ?E ps" by (auto simp: simplePath_def)
    have i0: "i \<noteq> 0"
    proof
      assume "i = 0"
      with hd ne vi have "p = v" by (simp add: hd_conv_nth)
      with that(2) show False by simp
    qed
    have il: "Suc i \<noteq> length ps"
    proof
      assume "Suc i = length ps"
      then have "i = length ps - 1" by simp
      with la ne vi have "q = v" by (simp add: last_conv_nth)
      with that(3) show False by simp
    qed
    from i0 obtain j where j: "i = Suc j" by (cases i) auto
    from i il have si: "Suc i < length ps" by simp
    from su j i have "?E (ps ! j) (ps ! i)" by (auto simp: successively_conv_nth)
    with vi have "?E (ps ! j) v" by simp
    then have a: "ps ! j = u" by (rule into_v)
    from su si have "?E (ps ! i) (ps ! Suc i)" by (auto simp: successively_conv_nth)
    with vi have "?E v (ps ! Suc i)" by simp
    then have b: "ps ! Suc i = u" by (rule from_v)
    from a b have "ps ! j = ps ! Suc i" by simp
    moreover from si j have "j < length ps" "Suc i < length ps" by simp_all
    ultimately have "j = Suc i" using di by (simp add: nth_eq_iff_index_eq)
    with j show False by simp
  qed
  have edges: "\<forall>p q. ?E p q \<longrightarrow> p \<in> insert v V \<and> q \<in> insert v V"
    using inV u by auto
  have paths: "\<exists>!ps. simplePath ?E p q ps" if p: "p \<in> insert v V" and q: "q \<in> insert v V" for p q
  proof -
    consider "p \<noteq> v" "q \<noteq> v" | "p = v" "q = v" | "p = v" "q \<noteq> v" | "p \<noteq> v" "q = v" by blast
    then show ?thesis
    proof cases
      case 1
      with p q have pV: "p \<in> V" and qV: "q \<in> V" by auto
      from uniq [OF pV qV] obtain ps0 where ps0: "simplePath E p q ps0"
        and only: "\<And>ps. simplePath E p q ps \<Longrightarrow> ps = ps0" by blast
      have "simplePath ?E p q ps0" using ps0 new_walk by (auto simp: simplePath_def)
      moreover have "ps = ps0" if sp: "simplePath ?E p q ps" for ps
      proof -
        from avoid [OF sp 1] sp old_walk have "simplePath E p q ps" by (auto simp: simplePath_def)
        then show ?thesis by (rule only)
      qed
      ultimately show ?thesis by blast
    next
      case 2
      then show ?thesis by (simp add: simplePath_single)
    next
      case 3
      with q have qV: "q \<in> V" by auto
      from uniq [OF u qV] obtain ps0 where ps0: "simplePath E u q ps0"
        and only: "\<And>ps. simplePath E u q ps \<Longrightarrow> ps = ps0" by blast
      from old_in_V [OF ps0 u] v have vps0: "v \<notin> set ps0" by auto
      from ps0 obtain a rs where c0: "ps0 = a # rs" by (cases ps0) (auto simp: simplePath_def)
      with ps0 have au: "a = u" by (simp add: simplePath_def)
      have "simplePath ?E p q (v # ps0)"
        using ps0 vps0 new_walk [of ps0] 3 c0 au by (auto simp: simplePath_def)
      moreover have "ps = v # ps0" if sp: "simplePath ?E p q ps" for ps
      proof -
        from sp 3 obtain ps' where ps: "ps = v # ps'" by (cases ps) (auto simp: simplePath_def)
        with sp 3 have ne: "ps' \<noteq> []" by (auto simp: simplePath_def)
        then obtain b rs' where ps': "ps' = b # rs'" by (cases ps') auto
        from sp ps ps' have "?E v b" by (auto simp: simplePath_def)
        then have bu: "b = u" by (rule from_v)
        from sp ps have "v \<notin> set ps'" "distinct ps'" "successively ?E ps'" "last ps' = q"
          using ne by (auto simp: simplePath_def successively_Cons)
        with old_walk [of ps'] ps' bu have "simplePath E u q ps'" by (auto simp: simplePath_def)
        then have "ps' = ps0" by (rule only)
        with ps show ?thesis by simp
      qed
      ultimately show ?thesis by blast
    next
      case 4
      with p have pV: "p \<in> V" by auto
      from uniq [OF pV u] obtain ps0 where ps0: "simplePath E p u ps0"
        and only: "\<And>ps. simplePath E p u ps \<Longrightarrow> ps = ps0" by blast
      from old_in_V [OF ps0 pV] v have vps0: "v \<notin> set ps0" by auto
      have "simplePath ?E p q (ps0 @ [v])"
        using ps0 vps0 new_walk [of ps0] 4
        by (auto simp: simplePath_def successively_append_iff)
      moreover have "ps = ps0 @ [v]" if sp: "simplePath ?E p q ps" for ps
      proof -
        from sp 4 have ne0: "ps \<noteq> []" and lv: "last ps = v" by (auto simp: simplePath_def)
        then obtain ps' where ps: "ps = ps' @ [v]" by (metis append_butlast_last_id)
        with sp 4 have ne: "ps' \<noteq> []" by (auto simp: simplePath_def)
        from sp ps ne 4 have "?E (last ps') v" by (auto simp: simplePath_def successively_append_iff)
        then have lu: "last ps' = u" by (rule into_v)
        from sp ps ne have "v \<notin> set ps'" "distinct ps'" "successively ?E ps'" "hd ps' = p"
          by (auto simp: simplePath_def successively_append_iff)
        with old_walk [of ps'] lu ne have "simplePath E p u ps'" by (auto simp: simplePath_def)
        then have "ps' = ps0" by (rule only)
        with ps show ?thesis by simp
      qed
      ultimately show ?thesis by blast
    qed
  qed
  show ?thesis
    unfolding treeOn_def
  proof (intro conjI ballI)
    show "\<forall>p q. ?E p q \<longrightarrow> p \<in> insert v V \<and> q \<in> insert v V" by (rule edges)
  next
    fix p q
    assume "p \<in> insert v V" and "q \<in> insert v V"
    then show "\<exists>!ps. simplePath ?E p q ps" by (rule paths)
  qed
qed

lemma wallFlag_clearFlag:
  "wallFlag s (cell_walls (clearFlag t c)) = (wallFlag s (cell_walls c) \<and> s \<noteq> t)"
  by (cases s; cases t) simp_all

lemma clearFlag_fields:
  "visited (clearFlag t c) = visited c" "cell_x (clearFlag t c) = cell_x c"
  "cell_y (clearFlag t c) = cell_y c"
  by (cases t; simp)+

lemma opposite_opposite: "opposite (opposite s) = s"
  by (cases s) simp_all

lemma opposite_eq: "opposite s = opposite t \<longleftrightarrow> s = t"
  by (cases s; cases t) simp_all

lemma opposite_neq: "opposite s \<noteq> s"
  by (cases s) simp_all

lemma sideOf_opposite: "sideOf q p = map_option opposite (sideOf p q)"
  by (cases p; cases q) (auto simp: sideOf_def)

lemma sideOf_inj_right: "sideOf p q = Some s \<Longrightarrow> sideOf p q' = Some s \<Longrightarrow> q = q'"
  by (cases p; cases q; cases q') (auto simp: sideOf_def split: if_splits)

lemma sideOf_inj_left: "sideOf p q = Some s \<Longrightarrow> sideOf p' q = Some s \<Longrightarrow> p = p'"
  by (cases p; cases p'; cases q) (auto simp: sideOf_def split: if_splits)

lemma sideOf_neq: "sideOf p q = Some s \<Longrightarrow> p \<noteq> q"
  by (cases p; cases q) (auto simp: sideOf_def split: if_splits)

lemma removeWall_side:
  assumes "sideOf pc pn = Some s"
    and "cell_x cur = snd pc" "cell_y cur = fst pc" "cell_x nxt = snd pn" "cell_y nxt = fst pn"
  shows "removeWall g pc cur pn nxt = updCell (updCell g pc (clearFlag s)) pn (clearFlag (opposite s))"
proof -
  obtain y x where pc: "pc = (y, x)" by (cases pc)
  obtain y' x' where pn: "pn = (y', x')" by (cases pn)
  have eqs: "clearFlag ToTop = (\<lambda>c. c\<lparr>cell_walls := (cell_walls c)\<lparr>wl_top := False\<rparr>\<rparr>)"
    "clearFlag ToRight = (\<lambda>c. c\<lparr>cell_walls := (cell_walls c)\<lparr>wl_right := False\<rparr>\<rparr>)"
    "clearFlag ToBottom = (\<lambda>c. c\<lparr>cell_walls := (cell_walls c)\<lparr>wl_bottom := False\<rparr>\<rparr>)"
    "clearFlag ToLeft = (\<lambda>c. c\<lparr>cell_walls := (cell_walls c)\<lparr>wl_left := False\<rparr>\<rparr>)"
    by (rule ext, simp)+
  from assms show ?thesis
    unfolding removeWall_def eqs [symmetric]
    by (cases s) (auto simp: sideOf_def pc pn split: if_splits)
qed

lemma passage_flagAt:
  "passage g a b \<longleftrightarrow>
     cellAt g a \<noteq> None \<and> cellAt g b \<noteq> None
     \<and> (\<exists>t. sideOf a b = Some t \<and> \<not> flagAt g a t \<and> \<not> flagAt g b (opposite t))"
  by (auto simp: passage_def flagAt_def split: option.splits)

lemma cellAt_pushed:
  assumes "pc \<noteq> pn"
  shows "cellAt (pushed g pc pn s) q =
          (if q = pn then map_option (\<lambda>c. (clearFlag (opposite s) c)\<lparr>visited := True\<rparr>) (cellAt g q)
           else if q = pc then map_option (clearFlag s) (cellAt g q)
           else cellAt g q)"
  using assms by (simp add: pushed_def cellAt_updCell option.map_comp comp_def)

lemma cellAt_pushed_None:
  "pc \<noteq> pn \<Longrightarrow> (cellAt (pushed g pc pn s) q = None) = (cellAt g q = None)"
  by (simp add: cellAt_pushed)

lemma flagAt_pushed:
  assumes "pc \<noteq> pn"
  shows "flagAt (pushed g pc pn s) q t
         = (flagAt g q t \<and> \<not> (cellAt g q \<noteq> None \<and> (q = pc \<and> t = s \<or> q = pn \<and> t = opposite s)))"
  using assms
  by (cases "cellAt g q") (auto simp: flagAt_def cellAt_pushed wallFlag_clearFlag)

lemma passage_pushed:
  assumes side: "sideOf pc pn = Some s"
    and cur: "cellAt g pc \<noteq> None" and nxt: "cellAt g pn \<noteq> None"
  shows "passage (pushed g pc pn s) a b
         \<longleftrightarrow> passage g a b \<or> (a = pc \<and> b = pn) \<or> (a = pn \<and> b = pc)"
proof -
  have ne: "pc \<noteq> pn" by (rule sideOf_neq [OF side])
  have rev_side: "sideOf pn pc = Some (opposite s)" by (simp add: sideOf_opposite [of pn pc] side)
  show ?thesis
  proof (cases "cellAt g a \<noteq> None \<and> cellAt g b \<noteq> None")
    case False
    with cur nxt show ?thesis
      by (auto simp: passage_flagAt cellAt_pushed_None [OF ne])
  next
    case ex: True
    show ?thesis
    proof (cases "sideOf a b")
      case None
      with side rev_side show ?thesis by (auto simp: passage_flagAt)
    next
      case (Some t)
      have A: "(a = pc \<and> t = s \<or> a = pn \<and> t = opposite s)
               \<longleftrightarrow> (a = pc \<and> b = pn) \<or> (a = pn \<and> b = pc)"
      proof
        assume "a = pc \<and> t = s \<or> a = pn \<and> t = opposite s"
        then show "(a = pc \<and> b = pn) \<or> (a = pn \<and> b = pc)"
          using Some side rev_side sideOf_inj_right by blast
      next
        assume "(a = pc \<and> b = pn) \<or> (a = pn \<and> b = pc)"
        then show "a = pc \<and> t = s \<or> a = pn \<and> t = opposite s"
          using Some side rev_side by auto
      qed
      have B: "(b = pc \<and> opposite t = s \<or> b = pn \<and> opposite t = opposite s)
               \<longleftrightarrow> (a = pc \<and> b = pn) \<or> (a = pn \<and> b = pc)"
      proof
        assume h: "b = pc \<and> opposite t = s \<or> b = pn \<and> opposite t = opposite s"
        then show "(a = pc \<and> b = pn) \<or> (a = pn \<and> b = pc)"
        proof
          assume "b = pc \<and> opposite t = s"
          then have "b = pc" and "t = opposite s" by (auto simp: opposite_opposite)
          with Some rev_side sideOf_inj_left show ?thesis by blast
        next
          assume "b = pn \<and> opposite t = opposite s"
          then have "b = pn" and "t = s" by (auto simp: opposite_eq)
          with Some side sideOf_inj_left show ?thesis by blast
        qed
      next
        assume "(a = pc \<and> b = pn) \<or> (a = pn \<and> b = pc)"
        then show "b = pc \<and> opposite t = s \<or> b = pn \<and> opposite t = opposite s"
          using Some side rev_side by (auto simp: opposite_opposite)
      qed
      have "passage (pushed g pc pn s) a b
            \<longleftrightarrow> (\<not> flagAt g a t \<or> (a = pc \<and> t = s \<or> a = pn \<and> t = opposite s))
                \<and> (\<not> flagAt g b (opposite t)
                   \<or> (b = pc \<and> opposite t = s \<or> b = pn \<and> opposite t = opposite s))"
        using ex Some by (simp add: passage_flagAt cellAt_pushed_None [OF ne] flagAt_pushed [OF ne])
      also have "\<dots> \<longleftrightarrow> (\<not> flagAt g a t \<and> \<not> flagAt g b (opposite t))
                          \<or> (a = pc \<and> b = pn) \<or> (a = pn \<and> b = pc)"
        unfolding A B by blast
      also have "\<dots> \<longleftrightarrow> passage g a b \<or> (a = pc \<and> b = pn) \<or> (a = pn \<and> b = pc)"
        using ex Some by (simp add: passage_flagAt)
      finally show ?thesis .
    qed
  qed
qed

lemma visitedSet_pushed:
  assumes "pc \<noteq> pn" and "cellAt g pn \<noteq> None"
  shows "visitedSet (pushed g pc pn s) = insert pn (visitedSet g)"
  using assms
  by (auto simp: visitedSet_def cellAt_pushed clearFlag_fields split: if_splits)

lemma probe_ok:
  assumes "guard \<Longrightarrow> cellAt g p \<noteq> None"
  shows "\<exists>N'. probe g guard p N = Inr N' \<and> length N' \<le> Suc (length N)"
  using assms by (auto simp: probe_def split: option.splits)

lemma neighbours_ok:
  assumes shape: "\<forall>p. (cellAt g p \<noteq> None) = inGrid cols rows p"
    and here: "inGrid cols rows (y, x)"
  shows "\<exists>N. neighbours cols rows g x y = Inr N \<and> length N \<le> 4"
proof -
  from here have x: "int x < cols" and y: "int y < rows" by (simp_all add: inGrid_def)
  have g1: "y > 0 \<Longrightarrow> cellAt g (y - 1, x) \<noteq> None"
    using shape x y by (simp add: inGrid_def)
  have g2: "int x < cols - 1 \<Longrightarrow> cellAt g (y, x + 1) \<noteq> None"
    using shape x y by (simp add: inGrid_def)
  have g3: "int y < rows - 1 \<Longrightarrow> cellAt g (y + 1, x) \<noteq> None"
    using shape x y by (simp add: inGrid_def)
  have g4: "x > 0 \<Longrightarrow> cellAt g (y, x - 1) \<noteq> None"
    using shape x y by (simp add: inGrid_def)
  from probe_ok [of "y > 0" g "(y - 1, x)" "[]", OF g1] obtain N1 where
    1: "probe g (y > 0) (y - 1, x) [] = Inr N1" and l1: "length N1 \<le> 1" by auto
  from probe_ok [of "int x < cols - 1" g "(y, x + 1)" N1, OF g2] obtain N2 where
    2: "probe g (int x < cols - 1) (y, x + 1) N1 = Inr N2" and l2: "length N2 \<le> Suc (length N1)"
    by auto
  from probe_ok [of "int y < rows - 1" g "(y + 1, x)" N2, OF g3] obtain N3 where
    3: "probe g (int y < rows - 1) (y + 1, x) N2 = Inr N3" and l3: "length N3 \<le> Suc (length N2)"
    by auto
  from probe_ok [of "x > 0" g "(y, x - 1)" N3, OF g4] obtain N where
    4: "probe g (x > 0) (y, x - 1) N3 = Inr N" and l4: "length N \<le> Suc (length N3)"
    by auto
  from 1 2 3 4 have "neighbours cols rows g x y = Inr N" by (simp add: neighbours_def)
  moreover from l1 l2 l3 l4 have "length N \<le> 4" by simp
  ultimately show ?thesis by blast
qed

lemma toInt32_draw:
  assumes u: "0 \<le> u" "u < 1" and n: "0 < n" "n \<le> 4"
  shows "0 \<le> toInt32 (u * real n) \<and> toInt32 (u * real n) < int n"
proof -
  have nonneg: "0 \<le> u * real n" using u n by simp
  have less: "u * real n < real n" using u n by simp
  define t where "t = \<lfloor>u * real n\<rfloor>"
  have t0: "0 \<le> t" using nonneg by (simp add: t_def)
  have tn: "t < int n" using less by (simp add: t_def floor_less_iff)
  have small: "t < 2 ^ 31" using tn n by simp
  then have "t mod 2 ^ 32 = t" using t0 by simp
  with nonneg small have "toInt32 (u * real n) = t"
    by (simp add: toInt32_def Let_def t_def [symmetric] not_less)
  with t0 tn show ?thesis by simp
qed

lemma neighbour_side:
  assumes "neighbours cols rows g x y = Inr N" and "pn \<in> set N"
  shows "sideOf (y, x) pn \<noteq> None" and "\<exists>c. cellAt g pn = Some c \<and> \<not> visited c"
  using assms(2) unfolding neighbours_set [OF assms(1)]
  by (auto simp: sideOf_def)

lemma neighbours_empty:
  assumes N: "neighbours cols rows g x y = Inr []"
    and shape: "\<forall>p. (cellAt g p \<noteq> None) = inGrid cols rows p"
    and side: "sideOf (y, x) q \<noteq> None" and q: "inGrid cols rows q"
  shows "q \<in> visitedSet g"
proof -
  from shape q have "cellAt g q \<noteq> None" by blast
  then obtain c where c: "cellAt g q = Some c" by blast
  obtain y' x' where q': "q = (y', x')" by (cases q)
  from side q have pos: "q = (y - 1, x) \<and> y > 0 \<or> q = (y, x + 1) \<and> int x < cols - 1
       \<or> q = (y + 1, x) \<and> int y < rows - 1 \<or> q = (y, x - 1) \<and> x > 0"
    by (auto simp: sideOf_def inGrid_def q' split: if_splits)
  from neighbours_set [OF N] have
    "\<not> ((\<exists>c. cellAt g q = Some c \<and> \<not> visited c)
        \<and> (q = (y - 1, x) \<and> y > 0 \<or> q = (y, x + 1) \<and> int x < cols - 1
           \<or> q = (y + 1, x) \<and> int y < rows - 1 \<or> q = (y, x - 1) \<and> x > 0))"
    by auto
  with pos c have "visited c" by auto
  with c show ?thesis by (auto simp: visitedSet_def)
qed

lemma carveStep_cases:
  assumes shape: "\<forall>p. (cellAt g p \<noteq> None) = inGrid cols rows p"
    and coords: "\<forall>y x c. cellAt g (y, x) = Some c \<longrightarrow> cell_x c = x \<and> cell_y c = y"
    and top: "cellAt g (y, x) \<noteq> None" and st: "last st = (y, x)"
    and rng: "rngOK r"
  shows "\<exists>N. neighbours cols rows g x y = Inr N
           \<and> (if N = [] then carveStep cols rows (g, st, r) = Inr (g, butlast st, r)
              else \<exists>pn s. pn \<in> set N \<and> sideOf (y, x) pn = Some s
                     \<and> carveStep cols rows (g, st, r)
                        = Inr (pushed g (y, x) pn s, st @ [pn], snd (Math_random r)))"
proof -
  from top obtain cur where cur: "cellAt g (y, x) = Some cur" by auto
  with coords have cxy: "cell_x cur = x" "cell_y cur = y" by auto
  from shape top have here: "inGrid cols rows (y, x)" by auto
  from neighbours_ok [OF shape here] obtain N where
    N: "neighbours cols rows g x y = Inr N" and len: "length N \<le> 4" by blast
  show ?thesis
  proof (cases "N = []")
    case True
    with N cur cxy st show ?thesis by (simp add: carveStep_def)
  next
    case False
    define k where "k = toInt32 (r 0 * real (length N))"
    from rng have "0 \<le> r 0" "r 0 < 1" by (simp_all add: rngOK_def)
    from toInt32_draw [OF this, of "length N"] False len
    have k: "0 \<le> k" "k < int (length N)" by (simp_all add: k_def)
    define pn where "pn = N ! nat k"
    from k have mem: "pn \<in> set N" by (simp add: pn_def)
    from neighbour_side [OF N mem] obtain s nxt where s: "sideOf (y, x) pn = Some s"
      and nxt: "cellAt g pn = Some nxt" by auto
    obtain y' x' where pn': "pn = (y', x')" by (cases pn)
    from coords nxt pn' have nxy: "cell_x nxt = snd pn" "cell_y nxt = fst pn" by auto
    from removeWall_side [OF s, of cur nxt g] cxy nxy
    have rw: "removeWall g (y, x) cur pn nxt
              = updCell (updCell g (y, x) (clearFlag s)) pn (clearFlag (opposite s))"
      by simp
    have "carveStep cols rows (g, st, r) = Inr (pushed g (y, x) pn s, st @ [pn], snd (Math_random r))"
      using N cur cxy st False k nxt rw
      by (simp add: carveStep_def Math_random_def Let_def k_def [symmetric] pn_def [symmetric]
          pushed_def)
    with mem s have "\<exists>pn s. pn \<in> set N \<and> sideOf (y, x) pn = Some s
                     \<and> carveStep cols rows (g, st, r)
                        = Inr (pushed g (y, x) pn s, st @ [pn], snd (Math_random r))"
      by blast
    with N False show ?thesis by simp
  qed
qed

lemma rngOK_next: "rngOK r \<Longrightarrow> rngOK (snd (Math_random r))"
  by (simp add: rngOK_def Math_random_def)

lemma treeOn_cong: "(\<And>a b. E a b = E' a b) \<Longrightarrow> treeOn E V \<Longrightarrow> treeOn E' V"
proof -
  assume "\<And>a b. E a b = E' a b"
  then have "E = E'" by (intro ext)
  then show "treeOn E V \<Longrightarrow> treeOn E' V" by simp
qed

lemma carveStep_inv:
  assumes inv: "carveInv cols rows g st" and ne: "st \<noteq> []" and rng: "rngOK r"
  shows "\<exists>g' st' r'. carveStep cols rows (g, st, r) = Inr (g', st', r')
           \<and> carveInv cols rows g' st' \<and> rngOK r'"
proof -
  let ?V = "visitedSet g"
  from inv have shape: "\<forall>p. (cellAt g p \<noteq> None) = inGrid cols rows p"
    and coords: "\<forall>y x c. cellAt g (y, x) = Some c \<longrightarrow> cell_x c = x \<and> cell_y c = y"
    and stack: "set st \<subseteq> ?V"
    and tree: "treeOn (passage g) ?V"
    and closed: "\<forall>p \<in> ?V. p \<in> set st \<or> (\<forall>q. sideOf p q \<noteq> None \<and> inGrid cols rows q \<longrightarrow> q \<in> ?V)"
    and origin: "(0, 0) \<in> ?V"
    by (simp_all add: carveInv_def)
  obtain y x where top: "last st = (y, x)" by (cases "last st")
  from ne stack top have topV: "(y, x) \<in> ?V" using last_in_set [OF ne] by auto
  then have topC: "cellAt g (y, x) \<noteq> None" by (auto simp: visitedSet_def)
  from carveStep_cases [OF shape coords topC top rng] obtain N where
    N: "neighbours cols rows g x y = Inr N"
    and step: "if N = [] then carveStep cols rows (g, st, r) = Inr (g, butlast st, r)
              else \<exists>pn s. pn \<in> set N \<and> sideOf (y, x) pn = Some s
                     \<and> carveStep cols rows (g, st, r)
                        = Inr (pushed g (y, x) pn s, st @ [pn], snd (Math_random r))"
    by blast
  show ?thesis
  proof (cases "N = []")
    case True
    with step have res: "carveStep cols rows (g, st, r) = Inr (g, butlast st, r)" by simp
    have stack': "set (butlast st) \<subseteq> ?V" using stack by (auto dest: in_set_butlastD)
    have closed': "p \<in> set (butlast st) \<or> (\<forall>q. sideOf p q \<noteq> None \<and> inGrid cols rows q \<longrightarrow> q \<in> ?V)"
      if p: "p \<in> ?V" for p
    proof (cases "p = (y, x)")
      case True
      from N \<open>N = []\<close> have "neighbours cols rows g x y = Inr []" by simp
      from neighbours_empty [OF this shape] True show ?thesis by blast
    next
      case False
      from closed p have "p \<in> set st \<or> (\<forall>q. sideOf p q \<noteq> None \<and> inGrid cols rows q \<longrightarrow> q \<in> ?V)"
        by blast
      moreover have "p \<in> set (butlast st)" if "p \<in> set st"
      proof -
        from ne have "st = butlast st @ [last st]" by simp
        then have "set st = set (butlast st) \<union> {last st}" by (metis set_append list.set(1,2) Un_insert_right sup_bot.right_neutral)
        with that False top show ?thesis by auto
      qed
      ultimately show ?thesis by blast
    qed
    have "carveInv cols rows g (butlast st)"
      unfolding carveInv_def using shape coords stack' tree closed' origin by blast
    with res rng show ?thesis by blast
  next
    case False
    with step obtain pn s where mem: "pn \<in> set N" and side: "sideOf (y, x) pn = Some s"
      and res: "carveStep cols rows (g, st, r)
                = Inr (pushed g (y, x) pn s, st @ [pn], snd (Math_random r))"
      by auto
    let ?g = "pushed g (y, x) pn s"
    from neighbour_side(2) [OF N mem] obtain nxt where nxt: "cellAt g pn = Some nxt"
      and unv: "\<not> visited nxt" by blast
    then have pnV: "pn \<notin> ?V" by (auto simp: visitedSet_def)
    have pnC: "cellAt g pn \<noteq> None" using nxt by simp
    have neq: "(y, x) \<noteq> pn" by (rule sideOf_neq [OF side])
    have V': "visitedSet ?g = insert pn ?V" by (rule visitedSet_pushed [OF neq pnC])
    have shape': "\<forall>p. (cellAt ?g p \<noteq> None) = inGrid cols rows p"
      using shape by (simp add: cellAt_pushed_None [OF neq])
    have coords': "\<forall>y' x' c. cellAt ?g (y', x') = Some c \<longrightarrow> cell_x c = x' \<and> cell_y c = y'"
      using coords by (auto simp: cellAt_pushed [OF neq] clearFlag_fields split: if_splits)
    have stack': "set (st @ [pn]) \<subseteq> visitedSet ?g" using stack V' by auto
    have tree': "treeOn (passage ?g) (visitedSet ?g)"
      unfolding V'
      by (rule treeOn_cong [OF _ treeOn_extend [OF tree topV pnV]])
         (simp add: passage_pushed [OF side topC pnC])
    have closed': "\<forall>p \<in> visitedSet ?g. p \<in> set (st @ [pn])
                     \<or> (\<forall>q. sideOf p q \<noteq> None \<and> inGrid cols rows q \<longrightarrow> q \<in> visitedSet ?g)"
      unfolding V' using closed by auto
    have origin': "(0, 0) \<in> visitedSet ?g" using origin V' by simp
    have "carveInv cols rows ?g (st @ [pn])"
      unfolding carveInv_def using shape' coords' stack' tree' closed' origin' by blast
    with res rngOK_next [OF rng] show ?thesis by blast
  qed
qed

lemma carveLoop_inv:
  "carveInv cols rows g st \<Longrightarrow> rngOK r \<Longrightarrow>
   \<exists>g' r'. carveLoop cols rows (g, st, r) = Inr (g', r') \<and> carveInv cols rows g' [] \<and> rngOK r'"
proof (induction cols rows "(g, st, r)" arbitrary: g st r rule: carveLoop.induct)
  case (1 cols rows g st r)
  show ?case
  proof (cases "st = []")
    case True
    with "1.prems" show ?thesis by (simp add: carveLoop.simps)
  next
    case False
    from carveStep_inv [OF "1.prems"(1) False "1.prems"(2)] obtain g' st' r' where
      step: "carveStep cols rows (g, st, r) = Inr (g', st', r')"
      and inv': "carveInv cols rows g' st'" and rng': "rngOK r'" by blast
    from "1.hyps" [OF False step inv' rng'] False step show ?thesis
      by (simp add: carveLoop.simps [of cols rows g st r])
  qed
qed

lemma cellAt_buildGrid:
  "cellAt (buildGrid cols rows) (y, x) =
     (if int x < cols \<and> int y < rows
      then Some \<lparr>cell_x = x, cell_y = y, visited = False,
                 cell_walls = \<lparr>wl_top = True, wl_right = True, wl_bottom = True, wl_left = True\<rparr>\<rparr>
      else None)"
  by (auto simp: cellAt_def buildGrid_def)

lemma carve_rejects:
  assumes "cols \<le> 0 \<or> rows \<le> 0"
  shows "carve cols rows r = Inl TypeError"
  using assms by (auto simp: carve_def cellAt_buildGrid)

lemma carveInv_init:
  assumes "1 \<le> cols" and "1 \<le> rows"
  shows "carveInv cols rows (updCell (buildGrid cols rows) (0, 0) (\<lambda>c. c\<lparr>visited := True\<rparr>)) [(0, 0)]"
proof -
  let ?g = "updCell (buildGrid cols rows) (0, 0) (\<lambda>c. c\<lparr>visited := True\<rparr>)"
  have at: "cellAt ?g (y, x) =
     (if int x < cols \<and> int y < rows
      then Some \<lparr>cell_x = x, cell_y = y, visited = (y = 0 \<and> x = 0),
                 cell_walls = \<lparr>wl_top = True, wl_right = True, wl_bottom = True, wl_left = True\<rparr>\<rparr>
      else None)" for y x
    using assms by (auto simp: cellAt_updCell cellAt_buildGrid)
  have shape: "\<forall>p. (cellAt ?g p \<noteq> None) = inGrid cols rows p"
    by (auto simp: at inGrid_def)
  have coords: "\<forall>y x c. cellAt ?g (y, x) = Some c \<longrightarrow> cell_x c = x \<and> cell_y c = y"
    by (auto simp: at split: if_splits)
  have V: "visitedSet ?g = {(0, 0)}"
    using assms by (auto simp: visitedSet_def at split: if_splits)
  have flags: "flagAt ?g q t" for q t
    by (cases q; cases t) (simp_all add: flagAt_def at)
  have "passage ?g a b = False" for a b
    by (simp add: passage_flagAt flags)
  then have tree: "treeOn (passage ?g) (visitedSet ?g)"
    unfolding V by (intro treeOn_cong [OF _ treeOn_single]) simp
  show ?thesis
    unfolding carveInv_def using shape coords tree by (simp add: V)
qed

lemma carveInv_final_all_visited:
  assumes inv: "carveInv cols rows g []" and p: "inGrid cols rows p"
  shows "p \<in> visitedSet g"
proof -
  from inv have closed: "\<And>a b. a \<in> visitedSet g \<Longrightarrow> sideOf a b \<noteq> None \<Longrightarrow> inGrid cols rows b
                          \<Longrightarrow> b \<in> visitedSet g"
    and origin: "(0, 0) \<in> visitedSet g"
    by (auto simp: carveInv_def)
  have row0: "int x < cols \<Longrightarrow> 0 < rows \<Longrightarrow> (0, x) \<in> visitedSet g" for x
  proof (induction x)
    case 0
    show ?case by (rule origin)
  next
    case (Suc x)
    then have "(0, x) \<in> visitedSet g" by simp
    moreover have "sideOf (0, x) (0, Suc x) \<noteq> None" by (simp add: sideOf_def)
    moreover have "inGrid cols rows (0, Suc x)" using Suc.prems by (simp add: inGrid_def)
    ultimately show ?case by (rule closed)
  qed
  have all: "int x < cols \<Longrightarrow> int y < rows \<Longrightarrow> (y, x) \<in> visitedSet g" for x y
  proof (induction y)
    case 0
    then show ?case by (simp add: row0)
  next
    case (Suc y)
    then have "(y, x) \<in> visitedSet g" by simp
    moreover have "sideOf (y, x) (Suc y, x) \<noteq> None" by (simp add: sideOf_def)
    moreover have "inGrid cols rows (Suc y, x)" using Suc.prems by (simp add: inGrid_def)
    ultimately show ?case by (rule closed)
  qed
  obtain y x where "p = (y, x)" by (cases p)
  with p all show ?thesis by (simp add: inGrid_def)
qed

lemma carveInv_final_tree:
  assumes inv: "carveInv cols rows g []"
  shows "treeOn (passage g) {p. inGrid cols rows p}"
proof -
  have "visitedSet g = {p. inGrid cols rows p}"
  proof (intro set_eqI iffI)
    fix p assume "p \<in> visitedSet g"
    then have "cellAt g p \<noteq> None" by (auto simp: visitedSet_def)
    moreover from inv have "(cellAt g p \<noteq> None) = inGrid cols rows p"
      unfolding carveInv_def by blast
    ultimately show "p \<in> {p. inGrid cols rows p}" by simp
  next
    fix p assume "p \<in> {p. inGrid cols rows p}"
    then show "p \<in> visitedSet g" using carveInv_final_all_visited [OF inv] by simp
  qed
  with inv show ?thesis by (simp add: carveInv_def)
qed

text \<open>
  Claim C5. For \<open>cols \<ge> 1\<close>, \<open>rows \<ge> 1\<close> and every sequence of draws in
  \<open>[0, 1)\<close> the carving loop returns, and in the grid it leaves every cell is reachable
  from cell (0,0) through removed walls and any two cells are joined by exactly one simple
  path; passages only join cells of the grid.
\<close>

theorem carve_spanning_tree:
  assumes "1 \<le> cols" and "1 \<le> rows" and "\<forall>n. 0 \<le> r n \<and> r n < 1"
  shows "\<exists>g r'. carve cols rows r = Inr (g, r')
           \<and> (\<forall>p. inGrid cols rows p \<longrightarrow> (\<exists>ps. simplePath (passage g) (0, 0) p ps))
           \<and> (\<forall>p q. inGrid cols rows p \<and> inGrid cols rows q
                 \<longrightarrow> (\<exists>!ps. simplePath (passage g) p q ps))
           \<and> (\<forall>p q. passage g p q \<longrightarrow> inGrid cols rows p \<and> inGrid cols rows q)"
proof -
  let ?g0 = "updCell (buildGrid cols rows) (0, 0) (\<lambda>c. c\<lparr>visited := True\<rparr>)"
  have rng: "rngOK r" using assms(3) by (simp add: rngOK_def)
  from carveLoop_inv [OF carveInv_init [OF assms(1,2)] rng] obtain g r' where
    loop: "carveLoop cols rows (?g0, [(0, 0)], r) = Inr (g, r')"
    and inv: "carveInv cols rows g []" by blast
  have run: "carve cols rows r = Inr (g, r')"
    using assms(1,2) loop by (simp add: carve_def cellAt_buildGrid)
  note tree = carveInv_final_tree [OF inv, unfolded treeOn_def]
  from tree have edges: "\<forall>p q. passage g p q \<longrightarrow> inGrid cols rows p \<and> inGrid cols rows q"
    by blast
  from tree have all: "\<forall>p \<in> {p. inGrid cols rows p}. \<forall>q \<in> {p. inGrid cols rows p}.
                         \<exists>!ps. simplePath (passage g) p q ps"
    by (rule conjunct2)
  have paths: "\<exists>!ps. simplePath (passage g) p q ps"
    if "inGrid cols rows p" and "inGrid cols rows q" for p q
    using all that by blast
  have origin: "inGrid cols rows (0, 0)" using assms(1,2) by (simp add: inGrid_def)
  have reach: "\<forall>p. inGrid cols rows p \<longrightarrow> (\<exists>ps. simplePath (passage g) (0, 0) p ps)"
    using paths [OF origin] by blast
  have uniq: "\<forall>p q. inGrid cols rows p \<and> inGrid cols rows q
                 \<longrightarrow> (\<exists>!ps. simplePath (passage g) p q ps)"
    using paths by (intro allI impI) (elim conjE)
  from run reach uniq edges show ?thesis by (intro exI [of _ g] exI [of _ r'] conjI)
qed

text \<open>
  Claim C8, amended. For \<open>cols \<le> 0\<close> or \<open>rows \<le> 0\<close> \<open>generate\<close> returns no wall
  list: the run ends with the \<open>TypeError\<close> of reading the missing cell
  \<open>grid[0][0]\<close>.
\<close>

theorem generate_nonpositive_fails:
  assumes "cols \<le> 0 \<or> rows \<le> 0"
  shows "generate cols rows r = Inl TypeError"
  using carve_rejects [OF assms] by (simp add: generate_def)

theorem generate_nonpositive_fails_witness:
  "((0::int) \<le> 0 \<or> (5::int) \<le> 0) \<and> generate 0 5 (\<lambda>_. 0) = Inl TypeError
   \<and> generate 3 (- 1) (\<lambda>_. 0) = Inl TypeError"
proof -
  have a: "(0::int) \<le> 0 \<or> (5::int) \<le> 0" by simp
  have b: "(3::int) \<le> 0 \<or> (- 1::int) \<le> 0" by simp
  from generate_nonpositive_fails [OF a] generate_nonpositive_fails [OF b] a show ?thesis by blast
qed

text \<open>
  The claim C8 as stated fails: the failure of \<open>generate 0 0\<close> is not an explicit
  rejection of the arguments.
\<close>

theorem generate_no_explicit_rejection_counterexample:
  "generate 0 0 (\<lambda>_. 0) \<noteq> Inl InvalidArgument"
proof -
  have "generate 0 0 (\<lambda>_. 0) = Inl TypeError"
    by (simp add: generate_def carve_def cellAt_def buildGrid_def)
  then show ?thesis by simp
qed

lemma tiny_carve_grid: "map_sum id fst (carve 2 1 (\<lambda>_. 0)) = Inr tinyMaze"
  by code_simp

lemma tiny_path: "simplePath (passage tinyMaze) (0, 0) (0, 1) [(0, 0), (0, 1)]"
  by code_simp

theorem carve_spanning_tree_witness:
  "(1::int) \<le> 2 \<and> (1::int) \<le> 1 \<and> (\<forall>n::nat. (0::real) \<le> (\<lambda>_. 0) n \<and> (\<lambda>_. 0::real) n < 1)
   \<and> map_sum id fst (carve 2 1 (\<lambda>_. 0)) = Inr tinyMaze
   \<and> (\<exists>!ps. simplePath (passage tinyMaze) (0, 0) (0, 1) ps)
   \<and> simplePath (passage tinyMaze) (0, 0) (0, 1) [(0, 0), (0, 1)]"
proof -
  have h1: "(1::int) \<le> 2" and h2: "(1::int) \<le> 1"
    and h3: "\<forall>n::nat. (0::real) \<le> (\<lambda>_. 0) n \<and> (\<lambda>_. 0::real) n < 1"
    by simp_all
  from carve_spanning_tree [OF h1 h2 h3] obtain g r' where
    run: "carve 2 1 (\<lambda>_. 0) = Inr (g, r')"
    and uniq: "\<forall>p q. inGrid 2 1 p \<and> inGrid 2 1 q \<longrightarrow> (\<exists>!ps. simplePath (passage g) p q ps)"
    by blast
  from run tiny_carve_grid have g: "g = tinyMaze" by simp
  have "inGrid 2 1 (0, 0) \<and> inGrid 2 1 (0, 1)" by (simp add: inGrid_def)
  with uniq g have "\<exists>!ps. simplePath (passage tinyMaze) (0, 0) (0, 1) ps" by blast
  with h1 h2 h3 tiny_carve_grid tiny_path show ?thesis by blast
qed

end
